theory Spec2Isabelle
  imports Main "HOL-Library.Word" "HOL-Library.Sublist"
begin

section \<open>JavaScript strings\<close>

text \<open>
  A JavaScript string is a sequence of UTF-16 code units; \<open>length\<close>, \<open>slice\<close>,
  \<open>lastIndexOf\<close>, \<open>trimStart\<close> and \<open>trimEnd\<close> all count code units. \<open>js\<close> embeds an
  ASCII literal.
\<close>

type_synonym jsstring = "16 word list"

definition js :: "string \<Rightarrow> jsstring" where
  "js s = map of_char s"

text \<open>
  The code units removed by \<open>trimStart\<close>/\<open>trimEnd\<close> and matched by the regular expression
  \<open>\s\<close>: ECMAScript WhiteSpace and LineTerminator.
\<close>

definition isWhiteSpace :: "16 word \<Rightarrow> bool" where
  "isWhiteSpace u = (u \<in> {0x9, 0xA, 0xB, 0xC, 0xD, 0x20, 0xA0, 0x1680, 0x2000, 0x2001,
      0x2002, 0x2003, 0x2004, 0x2005, 0x2006, 0x2007, 0x2008, 0x2009, 0x200A, 0x2028,
      0x2029, 0x202F, 0x205F, 0x3000, 0xFEFF})"

definition trimStart :: "jsstring \<Rightarrow> jsstring" where
  "trimStart s = dropWhile isWhiteSpace s"

definition trimEnd :: "jsstring \<Rightarrow> jsstring" where
  "trimEnd s = rev (dropWhile isWhiteSpace (rev s))"

definition trim :: "jsstring \<Rightarrow> jsstring" where
  "trim s = trimEnd (trimStart s)"

text \<open>
  \<open>s.lastIndexOf(pat, pos)\<close>: the largest index \<open>k \<le> min pos (length s - length pat)\<close>
  at which \<open>pat\<close> occurs in \<open>s\<close>, and \<open>-1\<close> when there is none.
\<close>

definition lastIndexOf :: "jsstring \<Rightarrow> jsstring \<Rightarrow> nat \<Rightarrow> int" where
  "lastIndexOf s pat pos =
     (if length s < length pat then - 1
      else case filter (\<lambda>k. take (length pat) (drop k s) = pat)
                  (rev [0..<Suc (min pos (length s - length pat))]) of
             [] \<Rightarrow> - 1
           | k # _ \<Rightarrow> int k)"

text \<open>\<open>s.includes(pat)\<close>: \<open>pat\<close> occurs somewhere in \<open>s\<close>.\<close>

fun includes_js :: "jsstring \<Rightarrow> jsstring \<Rightarrow> bool" where
  "includes_js [] pat = (pat = [])"
| "includes_js (x # xs) pat = (take (length pat) (x # xs) = pat \<or> includes_js xs pat)"

section \<open>Splitting a long message (zulip.ts, splitMessage)\<close>

definition MAX_MESSAGE_LENGTH :: nat where
  "MAX_MESSAGE_LENGTH = 9500"

text \<open>
  The split index of one loop iteration: the last paragraph boundary at or before
  \<open>maxLen\<close>, else the last newline, else \<open>maxLen\<close> itself. Each fallback is taken when the
  index found so far is \<open>\<le> 0\<close>.
\<close>

definition splitIdx :: "jsstring \<Rightarrow> nat \<Rightarrow> nat" where
  "splitIdx remaining maxLen =
     (let i1 = lastIndexOf remaining (js ''\<newline>\<newline>'') maxLen;
          i2 = (if i1 \<le> 0 then lastIndexOf remaining (js ''\<newline>'') maxLen else i1);
          i3 = (if i2 \<le> 0 then int maxLen else i2)
      in nat i3)"

text \<open>
  The \<open>while (remaining.length > maxLen)\<close> loop with the code after it. The loop need not
  terminate (for \<open>maxLen = 0\<close> it does not, on a text that starts with no white space), so
  it is a partial function: \<open>None\<close> is "does not return".
\<close>

partial_function (option) splitLoop ::
  "nat \<Rightarrow> jsstring \<Rightarrow> jsstring list \<Rightarrow> jsstring list option" where
  "splitLoop maxLen remaining chunks =
     (if maxLen < length remaining then
        splitLoop maxLen (trimStart (drop (splitIdx remaining maxLen) remaining))
          (chunks @ [trimEnd (take (splitIdx remaining maxLen) remaining)])
      else Some (if 0 < length remaining then chunks @ [remaining] else chunks))"

declare splitLoop.simps [code]

definition splitMessage :: "jsstring \<Rightarrow> nat \<Rightarrow> jsstring list option" where
  "splitMessage content maxLen =
     (if length content \<le> maxLen then Some [content] else splitLoop maxLen content [])"

text \<open>
  What the spec calls "re-inserting the boundary white space": the chunks interleaved with
  one gap after each chunk.
\<close>

definition rejoin :: "jsstring list \<Rightarrow> jsstring list \<Rightarrow> jsstring" where
  "rejoin chunks gaps = concat (map (\<lambda>(c, g). c @ g) (zip chunks gaps))"

definition allWhiteSpace :: "jsstring \<Rightarrow> bool" where
  "allWhiteSpace g = list_all isWhiteSpace g"

definition noWhiteSpace :: "jsstring \<Rightarrow> bool" where
  "noWhiteSpace s = list_all (\<lambda>u. \<not> isWhiteSpace u) s"

definition ceilDiv :: "nat \<Rightarrow> nat \<Rightarrow> nat" where
  "ceilDiv a b = (a + b - 1) div b"

section \<open>Errors and the remote messaging gateway\<close>

text \<open>
  A thrown value: an \<open>Error\<close> object with its message, or any other value with its
  \<open>String(err)\<close>.
\<close>

datatype error = Error jsstring | Thrown jsstring

text \<open>\<open>err instanceof Error ? err.message : String(err)\<close>\<close>

fun errorMsgOf :: "error \<Rightarrow> jsstring" where
  "errorMsgOf (Error m) = m"
| "errorMsgOf (Thrown m) = m"

subsection \<open>Messages and reaction events (zulip.ts)\<close>

datatype message_type = Stream | Private

record ZulipMessage =
  msg_id :: nat
  sender_email :: jsstring
  sender_full_name :: jsstring
  msg_type :: message_type
  display_recipient :: jsstring
  msg_subject :: jsstring
  msg_content :: jsstring

datatype reaction_op = Add | Remove

record ZulipReactionEvent =
  re_op :: reaction_op
  re_user_id :: nat
  re_message_id :: nat
  re_emoji_name :: jsstring

subsection \<open>Calls and their answers\<close>

text \<open>
  The calls made on the Zulip client, in the order they are made. \<open>MessagesSend to subject
  content\<close> is \<open>client.messages.send\<close> with type \<open>"stream"\<close>; \<open>PatchMessage\<close>,
  \<open>DeleteMessage\<close>, \<open>GetMessage\<close> and \<open>GetUser\<close> are \<open>client.callEndpoint\<close> on
  \<open>/messages/id\<close> and \<open>/users/id\<close>; \<open>PatchMessageUndefined\<close> is a PATCH whose content is
  \<open>undefined\<close> (\<open>chunks[0]\<close> of an empty array). \<open>MessagesRetrieve channel topic anchor
  num_before num_after\<close> is \<open>client.messages.retrieve\<close> narrowed to a topic. \<open>AskClaude
  question context\<close> is the call of the answering engine and \<open>ResolveTasksChannel\<close> the
  call of \<open>resolveTasksChannel\<close>, which lists, creates and moves channels and touches
  neither the database nor any message.
\<close>

datatype call =
    MessagesSend jsstring jsstring jsstring
  | MessagesRetrieve jsstring jsstring jsstring nat nat
  | PatchMessage nat jsstring
  | PatchMessageUndefined nat
  | DeleteMessage nat
  | GetMessage nat
  | GetUser nat
  | ReactionsAdd nat jsstring
  | ReactionsRemove nat jsstring
  | AskClaude jsstring jsstring
  | ResolveTasksChannel jsstring

fun isSend :: "call \<Rightarrow> bool" where
  "isSend (MessagesSend _ _ _) = True"
| "isSend _ = False"

fun isPatch :: "call \<Rightarrow> bool" where
  "isPatch (PatchMessage _ _) = True"
| "isPatch (PatchMessageUndefined _) = True"
| "isPatch _ = False"

text \<open>
  The gateway is a collaborator: what a call returns, or that it throws, is given by an
  oracle of the calls made so far (the last one is the call being answered).
\<close>

record gateway =
  send_result :: "call list \<Rightarrow> error + nat"
  retrieve_result :: "call list \<Rightarrow> error + ZulipMessage list"
  get_message_result :: "call list \<Rightarrow> error + ZulipMessage option"
  get_user_result :: "call list \<Rightarrow> error + jsstring option"
  ask_result :: "call list \<Rightarrow> jsstring list \<times> (error + jsstring)"
  resolve_result :: "call list \<Rightarrow> error + jsstring"

text \<open>
  \<open>send_result\<close>: the id of the posted message. \<open>retrieve_result\<close>: the messages of the
  window. \<open>get_message_result\<close>: \<open>res.message\<close>, if any. \<open>get_user_result\<close>:
  \<open>res.user.full_name\<close>, if there is a user. \<open>ask_result\<close>: the cumulative texts the engine
  passes to the streaming callback, then its final text or its failure. \<open>resolve_result\<close>:
  the channel \<open>resolveTasksChannel\<close> returns. \<open>Inl\<close> is a call that throws.
\<close>

definition sendsSucceed :: "gateway \<Rightarrow> bool" where
  "sendsSucceed gw = (\<forall>h. \<exists>i. send_result gw h = Inr i)"

text \<open>A gateway on which every call succeeds; a posted message gets the number of the call as id.\<close>

definition gateway_ok :: gateway where
  "gateway_ok = \<lparr>send_result = (\<lambda>h. Inr (length h)),
                  retrieve_result = (\<lambda>h. Inr []),
                  get_message_result = (\<lambda>h. Inr None),
                  get_user_result = (\<lambda>h. Inr None),
                  ask_result = (\<lambda>h. ([], Inr (js ''ok''))),
                  resolve_result = (\<lambda>h. Inr (js ''tasks''))\<rparr>"

text \<open>\<open>await client.messages.send({to, type: "stream", subject, content})\<close>\<close>

definition messages_send ::
  "gateway \<Rightarrow> jsstring \<Rightarrow> jsstring \<Rightarrow> jsstring \<Rightarrow> call list \<Rightarrow> (error + nat) \<times> call list" where
  "messages_send gw to subject content tr =
     (let tr' = tr @ [MessagesSend to subject content] in (send_result gw tr', tr'))"

section \<open>The streaming reply composer (zulip.ts, startStreamingMessage)\<close>

text \<open>
  The variables the three closures share. \<open>spinnerTimer\<close> is true while the interval is
  armed.
\<close>

record StreamingMessage =
  sm_messageId :: nat
  sm_channel :: jsstring
  sm_topic :: jsstring
  finalized :: bool
  textStarted :: bool
  spinnerTimer :: bool
  lastFlushedWordCount :: nat
  latestContent :: "jsstring option"

text \<open>A composer as \<open>startStreamingMessage\<close> returns it, for the examples.\<close>

definition sm0 :: StreamingMessage where
  "sm0 = \<lparr>sm_messageId = 1, sm_channel = js ''general'', sm_topic = js ''help'',
          finalized = False, textStarted = False, spinnerTimer = True,
          lastFlushedWordCount = 0, latestContent = None\<rparr>"

definition WORD_FLUSH_THRESHOLD :: int where
  "WORD_FLUSH_THRESHOLD = 40"

text \<open>\<open>text.split(/\s+/)\<close>: the pieces between maximal runs of white space.\<close>

fun split_ws :: "jsstring \<Rightarrow> jsstring \<Rightarrow> bool \<Rightarrow> jsstring list" where
  "split_ws [] cur inSep = [rev cur]"
| "split_ws (x # xs) cur inSep =
     (if isWhiteSpace x then (if inSep then split_ws xs cur True else rev cur # split_ws xs [] True)
      else split_ws xs (x # cur) False)"

definition countWords :: "jsstring \<Rightarrow> nat" where
  "countWords text = length (filter (\<lambda>w. w \<noteq> []) (split_ws text [] False))"

definition startStreamingMessage ::
  "gateway \<Rightarrow> jsstring \<Rightarrow> jsstring \<Rightarrow> call list \<Rightarrow> (error + StreamingMessage) \<times> call list" where
  "startStreamingMessage gw channel topic tr =
     (case messages_send gw channel topic (js '':loading: Thinking...'') tr of
        (Inl e, tr') \<Rightarrow> (Inl e, tr')
      | (Inr mid, tr') \<Rightarrow>
          (Inr \<lparr>sm_messageId = mid, sm_channel = channel, sm_topic = topic, finalized = False,
                textStarted = False, spinnerTimer = True, lastFlushedWordCount = 0,
                latestContent = None\<rparr>, tr'))"

text \<open>
  One firing of the spinner interval; \<open>elapsed\<close> is the text of the rounded seconds. A
  cleared interval does not fire. The PATCH is not awaited and its failure is swallowed.
\<close>

definition spinnerTick :: "StreamingMessage \<Rightarrow> jsstring \<Rightarrow> call list \<Rightarrow> call list" where
  "spinnerTick sm elapsed tr =
     (if \<not> spinnerTimer sm then tr
      else if finalized sm \<or> textStarted sm then tr
      else tr @ [PatchMessage (sm_messageId sm)
                   (js '':loading: Thinking... ('' @ elapsed @ js ''s)'')])"

definition flush :: "StreamingMessage \<Rightarrow> call list \<Rightarrow> StreamingMessage \<times> call list" where
  "flush sm tr =
     (if finalized sm \<or> latestContent sm = None then (sm, tr)
      else case latestContent sm of
             None \<Rightarrow> (sm, tr)
           | Some content \<Rightarrow>
               (sm\<lparr>lastFlushedWordCount := countWords content, latestContent := None\<rparr>,
                tr @ [PatchMessage (sm_messageId sm) content]))"

definition update :: "StreamingMessage \<Rightarrow> jsstring \<Rightarrow> call list \<Rightarrow> StreamingMessage \<times> call list" where
  "update sm content tr =
     (if finalized sm then (sm, tr)
      else
        let sm1 = (if \<not> textStarted sm then sm\<lparr>textStarted := True, spinnerTimer := False\<rparr>
                   else sm);
            sm2 = sm1\<lparr>latestContent := Some content\<rparr>
        in if int (countWords content) - int (lastFlushedWordCount sm2) \<ge> WORD_FLUSH_THRESHOLD
           then flush sm2 tr else (sm2, tr))"

text \<open>
  \<open>for (let i = 1; i < chunks.length; i++) await client.messages.send(...)\<close>, and the loop
  of \<open>sendMessage\<close>: a send that throws ends the loop with that error.
\<close>

fun sendChunks ::
  "gateway \<Rightarrow> jsstring \<Rightarrow> jsstring \<Rightarrow> jsstring list \<Rightarrow> call list \<Rightarrow> error option \<times> call list" where
  "sendChunks gw channel topic [] tr = (None, tr)"
| "sendChunks gw channel topic (c # cs) tr =
     (case messages_send gw channel topic c tr of
        (Inl e, tr') \<Rightarrow> (Some e, tr')
      | (Inr _, tr') \<Rightarrow> sendChunks gw channel topic cs tr')"

text \<open>
  \<open>finalize\<close> sets the flag, clears the spinner and writes. The result is \<open>None\<close> when
  \<open>splitMessage\<close> does not return, else the error thrown (if any), the closure variables
  and the calls made. The PATCH is awaited and its failure is swallowed.
\<close>

definition finalize ::
  "gateway \<Rightarrow> StreamingMessage \<Rightarrow> jsstring \<Rightarrow> call list \<Rightarrow>
     (error option \<times> StreamingMessage \<times> call list) option" where
  "finalize gw sm content tr =
     (let sm' = sm\<lparr>finalized := True, spinnerTimer := False\<rparr> in
      if length content \<le> MAX_MESSAGE_LENGTH
      then Some (None, sm', tr @ [PatchMessage (sm_messageId sm) content])
      else case splitMessage content MAX_MESSAGE_LENGTH of
             None \<Rightarrow> None
           | Some chunks \<Rightarrow>
               (let tr1 = tr @ [case chunks of [] \<Rightarrow> PatchMessageUndefined (sm_messageId sm)
                                | c0 # _ \<Rightarrow> PatchMessage (sm_messageId sm) c0]
                in case sendChunks gw (sm_channel sm) (sm_topic sm) (drop 1 chunks) tr1 of
                     (r, tr2) \<Rightarrow> Some (r, sm', tr2)))"

definition cancel :: "StreamingMessage \<Rightarrow> call list \<Rightarrow> StreamingMessage \<times> call list" where
  "cancel sm tr =
     (sm\<lparr>finalized := True, spinnerTimer := False\<rparr>, tr @ [DeleteMessage (sm_messageId sm)])"

text \<open>\<open>sendMessage\<close>: every chunk of the content is posted, in order.\<close>

definition sendMessage ::
  "gateway \<Rightarrow> jsstring \<Rightarrow> jsstring \<Rightarrow> jsstring \<Rightarrow> call list \<Rightarrow> (error option \<times> call list) option" where
  "sendMessage gw channel topic content tr =
     (case splitMessage content MAX_MESSAGE_LENGTH of
        None \<Rightarrow> None
      | Some chunks \<Rightarrow> Some (sendChunks gw channel topic chunks tr))"

section \<open>Services (services/types.ts)\<close>

record Config =
  zulipRealm :: jsstring
  contextMessages :: nat
  tasksChannel :: jsstring
  taskEmoji :: jsstring

record ServiceContext =
  client :: gateway
  config :: Config
  botEmail :: jsstring
  botUserId :: nat

text \<open>
  A service with its optional handlers. A handler is an async function over a world
  \<open>'w\<close> (the database, the timers, the calls made): \<open>onMessage\<close> resolves to a boolean or
  rejects, \<open>onReaction\<close> resolves or rejects.
\<close>

record 'w Service =
  svc_name :: jsstring
  onMessage :: "(ZulipMessage \<Rightarrow> ServiceContext \<Rightarrow> 'w \<Rightarrow> (error + bool) \<times> 'w) option"
  onReaction :: "(ZulipReactionEvent \<Rightarrow> ServiceContext \<Rightarrow> 'w \<Rightarrow> error option \<times> 'w) option"

section \<open>The event loop (index.ts)\<close>

definition BACKOFF_MS :: nat where
  "BACKOFF_MS = 5000"

text \<open>An event of the queue: its id, and the message with its flags or the reaction.\<close>

datatype event =
    MessageEvent int ZulipMessage "jsstring list"
  | ReactionEvent int ZulipReactionEvent
  | OtherEvent int

fun event_id :: "event \<Rightarrow> int" where
  "event_id (MessageEvent i _ _) = i"
| "event_id (ReactionEvent i _) = i"
| "event_id (OtherEvent i) = i"

text \<open>
  What the loop does, in order: the two queue calls, the handlers it starts without
  awaiting them (\<open>HandleMessage\<close>, and \<open>OnReaction\<close> with the name of the service), and the
  back-off wait with its milliseconds.
\<close>

datatype loop_call =
    QueuesRegister
  | EventsRetrieve jsstring int
  | HandleMessage ZulipMessage "jsstring list"
  | OnReaction jsstring ZulipReactionEvent
  | Sleep nat

fun isRegister :: "loop_call \<Rightarrow> bool" where
  "isRegister QueuesRegister = True"
| "isRegister _ = False"

fun isSleep :: "loop_call \<Rightarrow> bool" where
  "isSleep (Sleep _) = True"
| "isSleep _ = False"

text \<open>
  What \<open>client.events.retrieve\<close> resolves with: the body of the answer. The client
  resolves with the body also when the server answers with an error, as the check of
  \<open>result\<close> in dashboards.ts shows; such a body has \<open>result\<close>, \<open>code\<close> and \<open>msg\<close> and no
  \<open>events\<close>.
\<close>

datatype poll_response =
    Events "event list"
  | ErrorBody jsstring jsstring

record queue_gateway =
  register_result :: "loop_call list \<Rightarrow> error + jsstring \<times> int"
  events_result :: "loop_call list \<Rightarrow> error + poll_response"

text \<open>The two variables of \<open>eventLoop\<close>.\<close>

record loop_state =
  queueId :: jsstring
  lastEventId :: int

definition registerQueue ::
  "queue_gateway \<Rightarrow> loop_call list \<Rightarrow> (error + loop_state) \<times> loop_call list" where
  "registerQueue gw tr =
     (let tr' = tr @ [QueuesRegister] in
      case register_result gw tr' of
        Inl e \<Rightarrow> (Inl e, tr')
      | Inr (q, l) \<Rightarrow> (Inr \<lparr>queueId = q, lastEventId = l\<rparr>, tr'))"

text \<open>
  The body of \<open>for (const event of response.events)\<close>. The handlers are async functions:
  calling one returns a promise and never throws, and a rejection is logged by the
  \<open>catch\<close> attached to the promise.
\<close>

fun dispatchEvent ::
  "'w Service list \<Rightarrow> loop_state \<times> loop_call list \<Rightarrow> event \<Rightarrow> loop_state \<times> loop_call list" where
  "dispatchEvent services (st, tr) (MessageEvent i m flags) =
     (st\<lparr>lastEventId := i\<rparr>, tr @ [HandleMessage m flags])"
| "dispatchEvent services (st, tr) (ReactionEvent i r) =
     (st\<lparr>lastEventId := i\<rparr>,
      tr @ map (\<lambda>svc. OnReaction (svc_name svc) r) (filter (\<lambda>svc. onReaction svc \<noteq> None) services))"
| "dispatchEvent services (st, tr) (OtherEvent i) = (st\<lparr>lastEventId := i\<rparr>, tr)"

text \<open>
  The \<open>catch\<close> block of the loop, after the poll. The result is \<open>Inl\<close> when \<open>registerQueue\<close>
  throws there, which ends \<open>eventLoop\<close>.
\<close>

definition catchBlock ::
  "queue_gateway \<Rightarrow> loop_state \<Rightarrow> loop_call list \<Rightarrow> error \<Rightarrow> (error + loop_state) \<times> loop_call list" where
  "catchBlock gw st tr1 err =
     (if includes_js (errorMsgOf err) (js ''BAD_EVENT_QUEUE_ID'')
      then registerQueue gw tr1
      else (Inr st, tr1 @ [Sleep BACKOFF_MS]))"

text \<open>
  One iteration of \<open>while (true)\<close>: the \<open>try\<close> block and the \<open>catch\<close> block. On a body
  without \<open>events\<close>, \<open>for (const event of response.events)\<close> throws the \<open>TypeError\<close> of a value
  that is not iterable, which the \<open>catch\<close> block receives like any other error.
\<close>

definition iteration ::
  "queue_gateway \<Rightarrow> 'w Service list \<Rightarrow> loop_state \<Rightarrow> loop_call list \<Rightarrow>
     (error + loop_state) \<times> loop_call list" where
  "iteration gw services st tr =
     (let tr1 = tr @ [EventsRetrieve (queueId st) (lastEventId st)] in
      case events_result gw tr1 of
        Inr (Events events) \<Rightarrow>
          (case foldl (dispatchEvent services) (st, tr1) events of (st', tr2) \<Rightarrow> (Inr st', tr2))
      | Inr (ErrorBody code msg) \<Rightarrow>
          catchBlock gw st tr1 (Error (js ''response.events is not iterable''))
      | Inl err \<Rightarrow> catchBlock gw st tr1 err)"

text \<open>The first \<open>n\<close> iterations of the loop, which has no exit of its own.\<close>

fun iterations ::
  "nat \<Rightarrow> queue_gateway \<Rightarrow> 'w Service list \<Rightarrow> loop_state \<Rightarrow> loop_call list \<Rightarrow>
     (error + loop_state) \<times> loop_call list" where
  "iterations 0 gw services st tr = (Inr st, tr)"
| "iterations (Suc n) gw services st tr =
     (case iteration gw services st tr of
        (Inl e, tr') \<Rightarrow> (Inl e, tr')
      | (Inr st', tr') \<Rightarrow> iterations n gw services st' tr')"

definition eventLoop ::
  "nat \<Rightarrow> queue_gateway \<Rightarrow> 'w Service list \<Rightarrow> (error + loop_state) \<times> loop_call list" where
  "eventLoop n gw services =
     (case registerQueue gw [] of
        (Inl e, tr) \<Rightarrow> (Inl e, tr)
      | (Inr st, tr) \<Rightarrow> iterations n gw services st tr)"

text \<open>A queue gateway for the examples: the poll fails with the given error.\<close>

definition queue_failing :: "error \<Rightarrow> queue_gateway" where
  "queue_failing e = \<lparr>register_result = (\<lambda>h. Inr (js ''q2'', - 1)),
                      events_result = (\<lambda>h. Inl e)\<rparr>"

text \<open>
  The gateway of an expired queue: the server answers every poll with the error code
  \<open>BAD_EVENT_QUEUE_ID\<close>, and a registration would give the queue \<open>q2\<close>.
\<close>

definition queue_expired :: queue_gateway where
  "queue_expired = \<lparr>register_result = (\<lambda>h. Inr (js ''q2'', - 1)),
                     events_result = (\<lambda>h. Inr (ErrorBody (js ''BAD_EVENT_QUEUE_ID'')
                                                  (js ''Bad event queue ID: q1'')))\<rparr>"

definition st0 :: loop_state where
  "st0 = \<lparr>queueId = js ''q1'', lastEventId = 41\<rparr>"

section \<open>Handling a mention (bot.ts, handleMessage)\<close>

text \<open>\<open>xs.join(sep)\<close>\<close>

fun join :: "jsstring \<Rightarrow> jsstring list \<Rightarrow> jsstring" where
  "join sep [] = []"
| "join sep [x] = x"
| "join sep (x # y # ys) = x @ sep @ join sep (y # ys)"

text \<open>
  The world of a handler: the calls made on the gateway and the state of the services (the
  database, the timers).
\<close>

record 'w world =
  trace :: "call list"
  services_state :: 'w

text \<open>The services that have an \<open>onMessage\<close>, in registration order.\<close>

definition handlers :: "'v Service list \<Rightarrow> 'v Service list" where
  "handlers services = filter (\<lambda>svc. onMessage svc \<noteq> None) services"

text \<open>
  \<open>for (const svc of services)\<close>: whether a handler claimed the message, the names of the
  services whose \<open>onMessage\<close> was called, in order, and the world they leave. A handler
  that throws is logged and the loop goes on.
\<close>

fun runServices ::
  "'v Service list \<Rightarrow> ZulipMessage \<Rightarrow> ServiceContext \<Rightarrow> 'v \<Rightarrow> bool \<times> jsstring list \<times> 'v" where
  "runServices [] msg ctx w = (False, [], w)"
| "runServices (svc # rest) msg ctx w =
     (case onMessage svc of
        None \<Rightarrow> runServices rest msg ctx w
      | Some h \<Rightarrow>
          (case h msg ctx w of
             (Inr handled, w') \<Rightarrow>
               if handled then (True, [svc_name svc], w')
               else (case runServices rest msg ctx w' of
                       (claimed, called, w'') \<Rightarrow> (claimed, svc_name svc # called, w''))
           | (Inl err, w') \<Rightarrow>
               (case runServices rest msg ctx w' of
                  (claimed, called, w'') \<Rightarrow> (claimed, svc_name svc # called, w''))))"

text \<open>\<open>fetchTopicMessages\<close>\<close>

definition fetchTopicMessages ::
  "gateway \<Rightarrow> jsstring \<Rightarrow> jsstring \<Rightarrow> nat \<Rightarrow> call list \<Rightarrow> (error + ZulipMessage list) \<times> call list" where
  "fetchTopicMessages gw channel topic count tr =
     (let tr' = tr @ [MessagesRetrieve channel topic (js ''newest'') count 0]
      in (retrieve_result gw tr', tr'))"

text \<open>
  The \<open>try\<close> block of \<open>handleMessage\<close>. \<open>Inl\<close> is the error it throws, with the composer
  as it is then. \<open>htmlToText\<close> is a parameter. The engine's streaming callback is
  \<open>streaming.update\<close>.
\<close>

definition answer_try ::
  "(jsstring \<Rightarrow> jsstring) \<Rightarrow> ServiceContext \<Rightarrow> ZulipMessage \<Rightarrow> StreamingMessage \<Rightarrow> call list \<Rightarrow>
     (error option \<times> StreamingMessage \<times> call list) option" where
  "answer_try htmlToText ctx msg streaming tr =
     (let channel = display_recipient msg; topic = msg_subject msg;
          question = htmlToText (msg_content msg)
      in if trim question = [] then
           (case cancel streaming tr of
              (s1, tr1) \<Rightarrow>
                (case sendMessage (client ctx) channel topic
                        (js ''It looks like you mentioned me but didn't include a question. How can I help?'')
                        tr1 of
                   None \<Rightarrow> None
                 | Some (r, tr2) \<Rightarrow> Some (r, s1, tr2)))
         else
           (case fetchTopicMessages (client ctx) channel topic (contextMessages (config ctx)) tr of
              (Inl e, tr1) \<Rightarrow> Some (Some e, streaming, tr1)
            | (Inr recentMessages, tr1) \<Rightarrow>
                (let context = join (js ''\<newline>'')
                       (map (\<lambda>m. sender_full_name m @ js '': '' @ htmlToText (msg_content m))
                          (filter (\<lambda>m. msg_id m \<noteq> msg_id msg) recentMessages));
                     tr2 = tr1 @ [AskClaude question context]
                 in case ask_result (client ctx) tr2 of
                      (texts, res) \<Rightarrow>
                        (case foldl (\<lambda>(s, t) text. update s text t) (streaming, tr2) texts of
                           (s3, tr3) \<Rightarrow>
                             (case res of
                                Inl e \<Rightarrow> Some (Some e, s3, tr3)
                              | Inr answer \<Rightarrow> finalize (client ctx) s3 answer tr3)))))"

text \<open>
  The path after the chain: the composer, the \<open>try\<close> block and the \<open>catch\<close> block.
  The result is the error \<open>handleMessage\<close> rejects with, if any.
\<close>

definition answer ::
  "(jsstring \<Rightarrow> jsstring) \<Rightarrow> ServiceContext \<Rightarrow> ZulipMessage \<Rightarrow> call list \<Rightarrow>
     (error option \<times> call list) option" where
  "answer htmlToText ctx msg tr =
     (let channel = display_recipient msg; topic = msg_subject msg in
      case startStreamingMessage (client ctx) channel topic tr of
        (Inl e, tr1) \<Rightarrow> Some (Some e, tr1)
      | (Inr streaming, tr1) \<Rightarrow>
          (case answer_try htmlToText ctx msg streaming tr1 of
             None \<Rightarrow> None
           | Some (None, s2, tr2) \<Rightarrow> Some (None, tr2)
           | Some (Some err, s2, tr2) \<Rightarrow>
               (case cancel s2 tr2 of
                  (s3, tr3) \<Rightarrow>
                    (let errorMsg = (case err of Error m \<Rightarrow> m
                                     | Thrown _ \<Rightarrow> js ''An unknown error occurred'')
                     in case sendMessage (client ctx) channel topic
                               (js ''Sorry, I encountered an error processing your request: '' @ errorMsg)
                               tr3 of
                          None \<Rightarrow> None
                        | Some (_, tr4) \<Rightarrow> Some (None, tr4)))))"

text \<open>
  \<open>handleMessage\<close>: the three early returns, the chain, the answering path. The flag is the
  string \<open>"mentioned"\<close> among the flags of the event.
\<close>

definition handleMessage ::
  "(jsstring \<Rightarrow> jsstring) \<Rightarrow> ZulipMessage \<Rightarrow> jsstring list \<Rightarrow> ('w world) Service list \<Rightarrow>
     ServiceContext \<Rightarrow> 'w world \<Rightarrow> (error option \<times> jsstring list \<times> 'w world) option" where
  "handleMessage htmlToText msg flags services ctx w =
     (if msg_type msg \<noteq> Stream then Some (None, [], w)
      else if sender_email msg = botEmail ctx then Some (None, [], w)
      else if js ''mentioned'' \<notin> set flags then Some (None, [], w)
      else case runServices services msg ctx w of
             (True, called, w') \<Rightarrow> Some (None, called, w')
           | (False, called, w') \<Rightarrow>
               (case answer htmlToText ctx msg (trace w') of
                  None \<Rightarrow> None
                | Some (r, tr) \<Rightarrow> Some (r, called, w'\<lparr>trace := tr\<rparr>)))"

fun isAskClaude :: "call \<Rightarrow> bool" where
  "isAskClaude (AskClaude _ _) = True"
| "isAskClaude _ = False"

text \<open>
  For the examples: a context, a mention in a channel, and three services, of which the
  first throws, the second claims the message after posting a reply, and the third
  would claim it too.
\<close>

definition ctx0 :: ServiceContext where
  "ctx0 = \<lparr>client = gateway_ok,
           config = \<lparr>zulipRealm = js ''https://chat.example.com'', contextMessages = 20,
                     tasksChannel = js ''tasks'', taskEmoji = js ''clipboard''\<rparr>,
           botEmail = js ''bot@example.com'', botUserId = 7\<rparr>"

definition msg0 :: ZulipMessage where
  "msg0 = \<lparr>msg_id = 100, sender_email = js ''ann@example.com'', sender_full_name = js ''Ann'',
           msg_type = Stream, display_recipient = js ''general'', msg_subject = js ''help'',
           msg_content = js ''task''\<rparr>"

definition w0 :: "unit world" where
  "w0 = \<lparr>trace = [], services_state = ()\<rparr>"

definition svc_throws :: "(unit world) Service" where
  "svc_throws = \<lparr>svc_name = js ''broken'',
                  onMessage = Some (\<lambda>m c w. (Inl (Error (js ''boom'')), w)),
                  onReaction = None\<rparr>"

definition svc_claims :: "(unit world) Service" where
  "svc_claims = \<lparr>svc_name = js ''tasks'',
                  onMessage = Some (\<lambda>m c w. (Inr True,
                     w\<lparr>trace := trace w @ [MessagesSend (display_recipient m) (msg_subject m) (js ''done'')]\<rparr>)),
                  onReaction = None\<rparr>"

definition svc_also :: "(unit world) Service" where
  "svc_also = \<lparr>svc_name = js ''dashboards'',
                onMessage = Some (\<lambda>m c w. (Inr True, w)),
                onReaction = None\<rparr>"

section \<open>The persistence store (db.ts)\<close>

text \<open>
  The four tables, each with the rows in the order of their ids and with the largest id
  ever given (\<open>AUTOINCREMENT\<close>). A time stamp is a number: \<open>datetime('now')\<close> and
  \<open>new Date()\<close> are the parameter \<open>now\<close> of the operations.
\<close>

datatype task_status = Open | Done

record TaskRow =
  t_id :: nat
  t_content :: jsstring
  creator_name :: jsstring
  creator_user_id :: "nat option"
  status :: task_status
  source_channel :: jsstring
  source_topic :: jsstring
  source_msg_id :: nat
  task_channel :: "jsstring option"
  task_topic :: "jsstring option"
  task_msg_id :: "nat option"
  own_topic :: nat
  t_created_at :: nat
  completed_at :: "nat option"
  completed_by :: "jsstring option"

record AssigneeRow =
  a_id :: nat
  a_task_id :: nat
  user_name :: jsstring
  a_user_id :: "nat option"
  assigned_at :: nat

record DashboardRow =
  d_id :: nat
  d_name :: jsstring
  d_channel :: jsstring
  d_topic :: jsstring
  d_msg_id :: nat
  interval_ms :: nat
  d_params :: jsstring
  bootstrapped :: nat
  d_created_at :: nat

record FeedItemRow =
  f_id :: nat
  dashboard_id :: nat
  item_guid :: jsstring
  seen_at :: nat

record database =
  tasks :: "TaskRow list"
  task_assignees :: "AssigneeRow list"
  dashboards :: "DashboardRow list"
  feed_items :: "FeedItemRow list"
  tasks_seq :: nat
  task_assignees_seq :: nat
  dashboards_seq :: nat
  feed_items_seq :: nat

definition empty_database :: database where
  "empty_database = \<lparr>tasks = [], task_assignees = [], dashboards = [], feed_items = [],
                       tasks_seq = 0, task_assignees_seq = 0, dashboards_seq = 0,
                       feed_items_seq = 0\<rparr>"

text \<open>The argument of \<open>createTask\<close>.\<close>

record NewTask =
  nt_content :: jsstring
  nt_creatorName :: jsstring
  nt_creatorUserId :: "nat option"
  nt_sourceChannel :: jsstring
  nt_sourceTopic :: jsstring
  nt_sourceMsgId :: nat
  nt_ownTopic :: bool

text \<open>
  \<open>createTask\<close>: the insert throws when a row has the source message id
  (\<open>source_msg_id INTEGER NOT NULL UNIQUE\<close>); else the result is the id of the new row.
\<close>

definition createTask :: "database \<Rightarrow> NewTask \<Rightarrow> nat \<Rightarrow> error + nat \<times> database" where
  "createTask db p now =
     (if \<exists>t\<in>set (tasks db). source_msg_id t = nt_sourceMsgId p
      then Inl (Error (js ''UNIQUE constraint failed: tasks.source_msg_id''))
      else
        let i = Suc (tasks_seq db) in
        Inr (i, db\<lparr>tasks := tasks db @
                      [\<lparr>t_id = i, t_content = nt_content p, creator_name = nt_creatorName p,
                        creator_user_id = nt_creatorUserId p, status = Open,
                        source_channel = nt_sourceChannel p, source_topic = nt_sourceTopic p,
                        source_msg_id = nt_sourceMsgId p, task_channel = None, task_topic = None,
                        task_msg_id = None, own_topic = (if nt_ownTopic p then 1 else 0),
                        t_created_at = now, completed_at = None, completed_by = None\<rparr>],
                 tasks_seq := i\<rparr>))"

definition getTaskById :: "database \<Rightarrow> nat \<Rightarrow> TaskRow option" where
  "getTaskById db i = find (\<lambda>t. t_id t = i) (tasks db)"

definition getTaskBySourceMsgId :: "database \<Rightarrow> nat \<Rightarrow> TaskRow option" where
  "getTaskBySourceMsgId db msgId = find (\<lambda>t. source_msg_id t = msgId) (tasks db)"

definition getTaskByTaskMsgId :: "database \<Rightarrow> nat \<Rightarrow> TaskRow option" where
  "getTaskByTaskMsgId db msgId = find (\<lambda>t. task_msg_id t = Some msgId) (tasks db)"

definition updateTaskMsgRef :: "database \<Rightarrow> nat \<Rightarrow> jsstring \<Rightarrow> jsstring \<Rightarrow> nat \<Rightarrow> database" where
  "updateTaskMsgRef db taskId channel topic msgId =
     db\<lparr>tasks := map (\<lambda>t. if t_id t = taskId
                            then t\<lparr>task_channel := Some channel, task_topic := Some topic,
                                   task_msg_id := Some msgId\<rparr>
                            else t) (tasks db)\<rparr>"

definition completeTask :: "database \<Rightarrow> nat \<Rightarrow> jsstring \<Rightarrow> nat \<Rightarrow> database" where
  "completeTask db taskId completedBy now =
     db\<lparr>tasks := map (\<lambda>t. if t_id t = taskId
                            then t\<lparr>status := Done, completed_at := Some now,
                                   completed_by := Some completedBy\<rparr>
                            else t) (tasks db)\<rparr>"

definition reopenTask :: "database \<Rightarrow> nat \<Rightarrow> database" where
  "reopenTask db taskId =
     db\<lparr>tasks := map (\<lambda>t. if t_id t = taskId
                            then t\<lparr>status := Open, completed_at := None, completed_by := None\<rparr>
                            else t) (tasks db)\<rparr>"

text \<open>
  \<open>INSERT OR IGNORE INTO task_assignees\<close>: a row whose (task, user id) is there already
  is ignored (a null user id never conflicts); a task id that is not in \<open>tasks\<close> violates
  the foreign key, which \<open>OR IGNORE\<close> does not cover. The id of an \<open>AUTOINCREMENT\<close> table
  is taken before the conflict is seen, so an ignored row uses up an id too.
\<close>

definition insertAssignee ::
  "database \<Rightarrow> nat \<Rightarrow> jsstring \<times> nat option \<Rightarrow> nat \<Rightarrow> error + database" where
  "insertAssignee db taskId u now =
     (if \<not> (\<exists>t\<in>set (tasks db). t_id t = taskId)
      then Inl (Error (js ''FOREIGN KEY constraint failed''))
      else if snd u \<noteq> None \<and> (\<exists>a\<in>set (task_assignees db). a_task_id a = taskId \<and> a_user_id a = snd u)
      then Inr (db\<lparr>task_assignees_seq := Suc (task_assignees_seq db)\<rparr>)
      else
        let i = Suc (task_assignees_seq db) in
        Inr (db\<lparr>task_assignees := task_assignees db @
                    [\<lparr>a_id = i, a_task_id = taskId, user_name = fst u, a_user_id = snd u,
                      assigned_at = now\<rparr>],
                 task_assignees_seq := i\<rparr>))"

fun insertAssignees ::
  "database \<Rightarrow> nat \<Rightarrow> (jsstring \<times> nat option) list \<Rightarrow> nat \<Rightarrow> error + database" where
  "insertAssignees db taskId [] now = Inr db"
| "insertAssignees db taskId (u # us) now =
     (case insertAssignee db taskId u now of
        Inl e \<Rightarrow> Inl e
      | Inr db' \<Rightarrow> insertAssignees db' taskId us now)"

text \<open>\<open>addAssignees\<close>: the inserts in one transaction, rolled back when one throws.\<close>

definition addAssignees ::
  "database \<Rightarrow> nat \<Rightarrow> (jsstring \<times> nat option) list \<Rightarrow> nat \<Rightarrow> error option \<times> database" where
  "addAssignees db taskId users now =
     (case insertAssignees db taskId users now of
        Inl e \<Rightarrow> (Some e, db)
      | Inr db' \<Rightarrow> (None, db'))"

definition removeAssignees :: "database \<Rightarrow> nat \<Rightarrow> nat list \<Rightarrow> database" where
  "removeAssignees db taskId userIds =
     (if userIds = [] then db
      else db\<lparr>task_assignees :=
                filter (\<lambda>a. \<not> (a_task_id a = taskId \<and> a_user_id a \<in> Some ` set userIds))
                  (task_assignees db)\<rparr>)"

definition getAssignees :: "database \<Rightarrow> nat \<Rightarrow> AssigneeRow list" where
  "getAssignees db taskId = filter (\<lambda>a. a_task_id a = taskId) (task_assignees db)"

subsection \<open>Dashboards and feed items\<close>

text \<open>\<open>createDashboard\<close>: \<open>UNIQUE(name, channel, topic)\<close>.\<close>

definition createDashboard ::
  "database \<Rightarrow> jsstring \<Rightarrow> jsstring \<Rightarrow> jsstring \<Rightarrow> nat \<Rightarrow> nat \<Rightarrow> jsstring \<Rightarrow> nat \<Rightarrow>
     error + nat \<times> database" where
  "createDashboard db name channel topic msgId intervalMs ps now =
     (if \<exists>d\<in>set (dashboards db). d_name d = name \<and> d_channel d = channel \<and> d_topic d = topic
      then Inl (Error (js ''UNIQUE constraint failed: dashboards.name, dashboards.channel, dashboards.topic''))
      else
        let i = Suc (dashboards_seq db) in
        Inr (i, db\<lparr>dashboards := dashboards db @
                      [\<lparr>d_id = i, d_name = name, d_channel = channel, d_topic = topic,
                        d_msg_id = msgId, interval_ms = intervalMs, d_params = ps,
                        bootstrapped = 0, d_created_at = now\<rparr>],
                    dashboards_seq := i\<rparr>))"

text \<open>
  \<open>markFeedItemSeen\<close>: \<open>INSERT OR IGNORE\<close> under \<open>UNIQUE(dashboard_id, item_guid)\<close>; the
  result is whether a row was inserted. The insert throws when the dashboard is not in
  \<open>dashboards\<close> (the foreign key). An ignored row uses up an id of the table too.
\<close>

definition markFeedItemSeen ::
  "database \<Rightarrow> nat \<Rightarrow> jsstring \<Rightarrow> nat \<Rightarrow> error + bool \<times> database" where
  "markFeedItemSeen db dashboardId guid now =
     (if \<not> (\<exists>d\<in>set (dashboards db). d_id d = dashboardId)
      then Inl (Error (js ''FOREIGN KEY constraint failed''))
      else if \<exists>f\<in>set (feed_items db). dashboard_id f = dashboardId \<and> item_guid f = guid
      then Inr (False, db\<lparr>feed_items_seq := Suc (feed_items_seq db)\<rparr>)
      else
        let i = Suc (feed_items_seq db) in
        Inr (True, db\<lparr>feed_items := feed_items db @
                         [\<lparr>f_id = i, dashboard_id = dashboardId, item_guid = guid, seen_at = now\<rparr>],
                       feed_items_seq := i\<rparr>))"

definition setDashboardBootstrapped :: "database \<Rightarrow> nat \<Rightarrow> database" where
  "setDashboardBootstrapped db i =
     db\<lparr>dashboards := map (\<lambda>d. if d_id d = i then d\<lparr>bootstrapped := 1\<rparr> else d) (dashboards db)\<rparr>"

text \<open>\<open>SELECT * FROM dashboards ORDER BY created_at\<close>, rows of one time in the order of their ids.\<close>

definition getActiveDashboards :: "database \<Rightarrow> DashboardRow list" where
  "getActiveDashboards db = sort_key d_created_at (dashboards db)"

definition getDashboardsByChannelTopic :: "database \<Rightarrow> jsstring \<Rightarrow> jsstring \<Rightarrow> DashboardRow list" where
  "getDashboardsByChannelTopic db channel topic =
     filter (\<lambda>d. d_channel d = channel \<and> d_topic d = topic) (dashboards db)"

definition getDashboardByNameAndLocation ::
  "database \<Rightarrow> jsstring \<Rightarrow> jsstring \<Rightarrow> jsstring \<Rightarrow> DashboardRow option" where
  "getDashboardByNameAndLocation db name channel topic =
     find (\<lambda>d. d_name d = name \<and> d_channel d = channel \<and> d_topic d = topic) (dashboards db)"

definition getDashboardByMsgId :: "database \<Rightarrow> nat \<Rightarrow> DashboardRow option" where
  "getDashboardByMsgId db msgId = find (\<lambda>d. d_msg_id d = msgId) (dashboards db)"

text \<open>\<open>deleteDashboard\<close>: the feed items of the row go with it (\<open>ON DELETE CASCADE\<close>).\<close>

definition deleteDashboard :: "database \<Rightarrow> nat \<Rightarrow> database" where
  "deleteDashboard db i =
     db\<lparr>dashboards := filter (\<lambda>d. d_id d \<noteq> i) (dashboards db),
        feed_items := filter (\<lambda>f. dashboard_id f \<noteq> i) (feed_items db)\<rparr>"

section \<open>The tasks service (services/tasks.ts)\<close>

text \<open>
  Library functions the service calls, as parameters: \<open>htmlToText\<close> (html-to-text.ts, a
  chain of regular-expression replacements), \<open>String.prototype.toLowerCase\<close> and
  \<open>encodeURIComponent\<close>.
\<close>

record lib =
  lib_htmlToText :: "jsstring \<Rightarrow> jsstring"
  toLowerCase :: "jsstring \<Rightarrow> jsstring"
  encodeURIComponent :: "jsstring \<Rightarrow> jsstring"

text \<open>The decimal digits of a number, as a template literal prints an id.\<close>

fun showNat :: "nat \<Rightarrow> jsstring" where
  "showNat n = (if n < 10 then [of_nat (48 + n)]
                else showNat (n div 10) @ [of_nat (48 + n mod 10)])"

declare showNat.simps [simp del]

text \<open>\<open>text.split("\n")\<close>\<close>

fun split_nl :: "jsstring \<Rightarrow> jsstring \<Rightarrow> jsstring list" where
  "split_nl [] cur = [rev cur]"
| "split_nl (x # xs) cur = (if x = 0xA then rev cur # split_nl xs [] else split_nl xs (x # cur))"

definition quote :: "jsstring \<Rightarrow> jsstring" where
  "quote text = join (js ''\<newline>'') (map (\<lambda>line. js ''> '' @ line) (split_nl text []))"

text \<open>\<open>truncate\<close>; at a limit of 0, \<open>slice(0, -1)\<close> drops the last unit.\<close>

definition truncate_js :: "jsstring \<Rightarrow> nat \<Rightarrow> jsstring" where
  "truncate_js text maxLen =
     (let oneLine = trim (map (\<lambda>u. if u = 0xA then 0x20 else u) text) in
      if length oneLine \<le> maxLen then oneLine
      else (if maxLen = 0 then butlast oneLine else take (maxLen - 1) oneLine) @ [0x2026])"

definition startsWith :: "jsstring \<Rightarrow> jsstring \<Rightarrow> bool" where
  "startsWith s p = (take (length p) s = p)"

definition isTasksChannel :: "lib \<Rightarrow> jsstring \<Rightarrow> Config \<Rightarrow> bool" where
  "isTasksChannel l channelName cfg =
     (let prefix = toLowerCase l (tasksChannel cfg); name = toLowerCase l channelName
      in name = prefix \<or> startsWith name (prefix @ js ''-''))"

text \<open>
  \<open>resolveTasksChannel\<close> is a series of calls that list, create and move channels; what it
  returns is the gateway's to say.
\<close>

definition resolveTasksChannel ::
  "ServiceContext \<Rightarrow> jsstring \<Rightarrow> call list \<Rightarrow> (error + jsstring) \<times> call list" where
  "resolveTasksChannel ctx sourceChannel tr =
     (let tr' = tr @ [ResolveTasksChannel sourceChannel] in (resolve_result (client ctx) tr', tr'))"

text \<open>
  \<open>renderTaskCard\<close>. The two status emoji are U+2705 and U+1F4CB (a surrogate pair), the
  dash is U+2014. An assignee whose user id is null or 0 is shown by name.
\<close>

definition renderTaskCard :: "lib \<Rightarrow> TaskRow \<Rightarrow> AssigneeRow list \<Rightarrow> Config \<Rightarrow> jsstring" where
  "renderTaskCard l task assignees cfg =
     (let msgLink = zulipRealm cfg @ js ''/#narrow/channel/'' @ encodeURIComponent l (source_channel task)
                      @ js ''/topic/'' @ encodeURIComponent l (source_topic task)
                      @ js ''/near/'' @ showNat (source_msg_id task);
          statusEmoji = (if status task = Done then [0x2705] else [0xD83D, 0xDCCB]);
          statusText = (if status task = Done
                        then js ''Done'' @ (case completed_by task of
                                              None \<Rightarrow> []
                                            | Some by \<Rightarrow> if by = [] then [] else js '' by '' @ by)
                        else js ''Open '' @ [0x2014] @ js '' react with :check: when done'');
          lines = [statusEmoji @ js '' **Task** '' @ [0x2014] @ js '' [source message]('' @ msgLink @ js '')'',
                   [], quote (t_content task), []];
          lines1 = (if 0 < length assignees
                    then lines @ [js ''**Assigned to**: '' @
                           join (js '', '')
                             (map (\<lambda>a. case a_user_id a of
                                          None \<Rightarrow> user_name a
                                        | Some uid \<Rightarrow>
                                            if uid = 0 then user_name a
                                            else js ''@_**'' @ user_name a @ js ''|'' @ showNat uid @ js ''**'')
                                assignees)]
                    else lines)
      in join (js ''\<newline>'')
           (lines1 @ [js ''**Created by**: '' @ creator_name task, js ''**Status**: '' @ statusText]))"

text \<open>
  \<open>syncTaskMessage\<close>: nothing when the card's message id is null or 0; the failure of the
  PATCH is logged and swallowed.
\<close>

definition syncTaskMessage ::
  "lib \<Rightarrow> TaskRow \<Rightarrow> AssigneeRow list \<Rightarrow> Config \<Rightarrow> call list \<Rightarrow> call list" where
  "syncTaskMessage l task assignees cfg tr =
     (case task_msg_id task of
        None \<Rightarrow> tr
      | Some m \<Rightarrow> if m = 0 then tr
                  else tr @ [PatchMessage m (renderTaskCard l task assignees cfg)])"

text \<open>A parsed mention: the user id and the user name.\<close>

type_synonym ParsedMention = "nat \<times> jsstring"

text \<open>
  What \<open>handleTaskCreation\<close> and the promote branch of \<open>onReaction\<close> share from the insert
  on: the task row, its assignees, the card, the reference to the card. The card's topic
  and the two differences (the reaction on the source message, the text of the
  confirmation) are parameters. \<open>Inl\<close> is the error thrown.
\<close>

definition postTaskCard ::
  "lib \<Rightarrow> ServiceContext \<Rightarrow> nat \<Rightarrow> nat \<Rightarrow> jsstring \<Rightarrow> jsstring \<Rightarrow> database \<Rightarrow> call list \<Rightarrow>
     error option \<times> database \<times> call list" where
  "postTaskCard l ctx taskId sourceMsgId tasksCh taskTopic db tr =
     (let assigneeRows = getAssignees db taskId in
      case getTaskBySourceMsgId db sourceMsgId of
        None \<Rightarrow> (Some (Error (js ''Cannot read properties of undefined'')), db, tr)
      | Some row \<Rightarrow>
          (let task = row\<lparr>t_id := taskId\<rparr>;
               cardContent = renderTaskCard l
                  (task\<lparr>task_channel := Some tasksCh, task_topic := Some taskTopic\<rparr>)
                  assigneeRows (config ctx)
           in case messages_send (client ctx) tasksCh taskTopic cardContent tr of
                (Inl e, tr1) \<Rightarrow> (Some e, db, tr1)
              | (Inr sent, tr1) \<Rightarrow> (None, updateTaskMsgRef db taskId tasksCh taskTopic sent, tr1)))"

text \<open>
  \<open>isTasksChannel(channel, ctx.config) ? channel : await resolveTasksChannel(ctx, channel)\<close>
\<close>

definition tasksChannelFor ::
  "lib \<Rightarrow> ServiceContext \<Rightarrow> jsstring \<Rightarrow> call list \<Rightarrow> (error + jsstring) \<times> call list" where
  "tasksChannelFor l ctx channel tr =
     (if isTasksChannel l channel (config ctx) then (Inr channel, tr)
      else resolveTasksChannel ctx channel tr)"

text \<open>
  \<open>handleTaskCreation\<close>, the explicit task command, in three parts: the end (the reaction
  on the source message and the confirmation), the middle (from the insert to the card)
  and the start (the message above, the duplicate check, the tasks channel).
\<close>

definition taskCreation_confirm ::
  "ZulipMessage \<Rightarrow> ServiceContext \<Rightarrow> ParsedMention list \<Rightarrow> nat \<Rightarrow> jsstring \<Rightarrow> jsstring \<Rightarrow>
     database \<Rightarrow> call list \<Rightarrow> error option \<times> database \<times> call list" where
  "taskCreation_confirm msg ctx mentions targetId tasksCh taskTopic db tr =
     (let tr1 = tr @ [ReactionsAdd targetId (taskEmoji (config ctx))];
          assigneeMentions = map (\<lambda>m. js ''@_**'' @ snd m @ js ''|'' @ showNat (fst m) @ js ''**'') mentions;
          parts = [js ''Task created by '' @ sender_full_name msg]
                  @ (if assigneeMentions \<noteq> []
                     then [js ''assigned to '' @ join (js '', '') assigneeMentions]
                     else [])
      in case messages_send (client ctx) (display_recipient msg) (msg_subject msg)
                (join (js '', '') parts @ js '' in #**'' @ tasksCh @ js ''>'' @ taskTopic @ js ''**'')
                tr1 of
           (Inl e, tr2) \<Rightarrow> (Some e, db, tr2)
         | (Inr _, tr2) \<Rightarrow> (None, db, tr2))"

definition taskCreation_insert ::
  "lib \<Rightarrow> ZulipMessage \<Rightarrow> ServiceContext \<Rightarrow> ParsedMention list \<Rightarrow> bool \<Rightarrow> nat \<Rightarrow>
     ZulipMessage \<Rightarrow> jsstring \<Rightarrow> database \<Rightarrow> call list \<Rightarrow> error option \<times> database \<times> call list" where
  "taskCreation_insert l msg ctx mentions ownTopic now targetMsg tasksCh db tr =
     (let channel = display_recipient msg; topic = msg_subject msg;
          content = lib_htmlToText l (msg_content targetMsg)
      in case createTask db
                \<lparr>nt_content = content, nt_creatorName = sender_full_name msg,
                 nt_creatorUserId = None, nt_sourceChannel = channel,
                 nt_sourceTopic = topic, nt_sourceMsgId = msg_id targetMsg,
                 nt_ownTopic = ownTopic\<rparr> now of
           Inl e \<Rightarrow> (Some e, db, tr)
         | Inr (taskId, db1) \<Rightarrow>
             (case (if 0 < length mentions
                    then addAssignees db1 taskId (map (\<lambda>m. (snd m, Some (fst m))) mentions) now
                    else (None, db1)) of
                (Some e, db2) \<Rightarrow> (Some e, db2, tr)
              | (None, db2) \<Rightarrow>
                  (let inTasksChannel = isTasksChannel l channel (config ctx);
                       taskTopic = (if ownTopic then truncate_js content 50
                                    else if inTasksChannel then topic
                                    else channel @ js '' / '' @ topic)
                   in case postTaskCard l ctx taskId (msg_id targetMsg) tasksCh taskTopic db2 tr of
                        (Some e, db3, tr3) \<Rightarrow> (Some e, db3, tr3)
                      | (None, db3, tr3) \<Rightarrow>
                          taskCreation_confirm msg ctx mentions (msg_id targetMsg) tasksCh taskTopic
                            db3 tr3)))"

definition handleTaskCreation ::
  "lib \<Rightarrow> ZulipMessage \<Rightarrow> ServiceContext \<Rightarrow> ParsedMention list \<Rightarrow> bool \<Rightarrow> nat \<Rightarrow>
     database \<Rightarrow> call list \<Rightarrow> error option \<times> database \<times> call list" where
  "handleTaskCreation l msg ctx mentions ownTopic now db tr =
     (let channel = display_recipient msg; topic = msg_subject msg;
          tr1 = tr @ [MessagesRetrieve channel topic (showNat (msg_id msg)) 1 0]
      in case retrieve_result (client ctx) tr1 of
           Inl e \<Rightarrow> (Some e, db, tr1)
         | Inr messages \<Rightarrow>
             (let preceding = filter (\<lambda>m. msg_id m \<noteq> msg_id msg) messages in
              if length preceding = 0 then
                (case messages_send (client ctx) channel topic
                        (js ''There's no message above to promote into a task.'') tr1 of
                   (Inl e, tr2) \<Rightarrow> (Some e, db, tr2)
                 | (Inr _, tr2) \<Rightarrow> (None, db, tr2))
              else
                let targetMsg = last preceding in
                if getTaskBySourceMsgId db (msg_id targetMsg) \<noteq> None then
                  (case messages_send (client ctx) channel topic
                          (js ''A task already exists for that message.'') tr1 of
                     (Inl e, tr2) \<Rightarrow> (Some e, db, tr2)
                   | (Inr _, tr2) \<Rightarrow> (None, db, tr2))
                else
                  case tasksChannelFor l ctx channel tr1 of
                    (Inl e, tr2) \<Rightarrow> (Some e, db, tr2)
                  | (Inr tasksCh, tr2) \<Rightarrow>
                      taskCreation_insert l msg ctx mentions ownTopic now targetMsg tasksCh db tr2))"

text \<open>
  \<open>tasks.onReaction\<close>, in three parts: the done emoji on a task card (the task is
  completed or reopened and the card is patched), the promotion of the message that
  carries the promote emoji, and the guards before the two.
\<close>

definition toggleCompletion ::
  "lib \<Rightarrow> ZulipReactionEvent \<Rightarrow> ServiceContext \<Rightarrow> nat \<Rightarrow> TaskRow \<Rightarrow> database \<Rightarrow> call list \<Rightarrow>
     error option \<times> database \<times> call list" where
  "toggleCompletion l event ctx now task db tr =
     (let tr1 = tr @ [GetUser (re_user_id event)] in
      case get_user_result (client ctx) tr1 of
        Inl e \<Rightarrow> (Some e, db, tr1)
      | Inr user \<Rightarrow>
          (let reactorName = (case user of Some n \<Rightarrow> n | None \<Rightarrow> js ''Unknown'');
               db1 = (if re_op event = Add then completeTask db (t_id task) reactorName now
                      else reopenTask db (t_id task));
               updatedTask = task\<lparr>status := (if re_op event = Add then Done else Open),
                                  completed_by := (if re_op event = Add then Some reactorName else None),
                                  completed_at := (if re_op event = Add then Some now else None)\<rparr>;
               assignees = getAssignees db1 (t_id task)
           in (None, db1, syncTaskMessage l updatedTask assignees (config ctx) tr1)))"

definition promoteByReaction ::
  "lib \<Rightarrow> ZulipReactionEvent \<Rightarrow> ServiceContext \<Rightarrow> nat \<Rightarrow> ZulipMessage \<Rightarrow> database \<Rightarrow> call list \<Rightarrow>
     error option \<times> database \<times> call list" where
  "promoteByReaction l event ctx now msg db tr =
     (let tr1 = tr @ [GetUser (re_user_id event)] in
      case get_user_result (client ctx) tr1 of
        Inl e \<Rightarrow> (Some e, db, tr1)
      | Inr user \<Rightarrow>
          (let reactorName = (case user of Some n \<Rightarrow> n | None \<Rightarrow> js ''Unknown'');
               content = lib_htmlToText l (msg_content msg);
               inTasksChannel = isTasksChannel l (display_recipient msg) (config ctx)
           in case tasksChannelFor l ctx (display_recipient msg) tr1 of
                (Inl e, tr2) \<Rightarrow> (Some e, db, tr2)
              | (Inr tasksCh, tr2) \<Rightarrow>
                  (case createTask db
                          \<lparr>nt_content = content, nt_creatorName = reactorName,
                           nt_creatorUserId = None,
                           nt_sourceChannel = display_recipient msg,
                           nt_sourceTopic = msg_subject msg, nt_sourceMsgId = msg_id msg,
                           nt_ownTopic = False\<rparr> now of
                     Inl e \<Rightarrow> (Some e, db, tr2)
                   | Inr (taskId, db1) \<Rightarrow>
                       (case addAssignees db1 taskId [(reactorName, Some (re_user_id event))] now of
                          (Some e, db2) \<Rightarrow> (Some e, db2, tr2)
                        | (None, db2) \<Rightarrow>
                            (let taskTopic = (if inTasksChannel then msg_subject msg
                                              else display_recipient msg @ js '' / '' @ msg_subject msg)
                             in case postTaskCard l ctx taskId (msg_id msg) tasksCh taskTopic db2 tr2 of
                                  (Some e, db3, tr3) \<Rightarrow> (Some e, db3, tr3)
                                | (None, db3, tr3) \<Rightarrow>
                                    (case messages_send (client ctx) (display_recipient msg)
                                            (msg_subject msg)
                                            (js ''Task created by '' @ reactorName @ js '', assigned to ''
                                               @ js ''@_**'' @ reactorName @ js ''|''
                                               @ showNat (re_user_id event) @ js ''**''
                                               @ js '' in #**'' @ tasksCh @ js ''>'' @ taskTopic @ js ''**'')
                                            tr3 of
                                       (Inl e, tr4) \<Rightarrow> (Some e, db3, tr4)
                                     | (Inr _, tr4) \<Rightarrow> (None, db3, tr4)))))))"

definition tasks_onReaction ::
  "lib \<Rightarrow> ZulipReactionEvent \<Rightarrow> ServiceContext \<Rightarrow> nat \<Rightarrow> database \<Rightarrow> call list \<Rightarrow>
     error option \<times> database \<times> call list" where
  "tasks_onReaction l event ctx now db tr =
     (if re_user_id event = botUserId ctx then (None, db, tr)
      else if re_emoji_name event = js ''check'' then
        (case getTaskByTaskMsgId db (re_message_id event) of
           None \<Rightarrow> (None, db, tr)
         | Some task \<Rightarrow> toggleCompletion l event ctx now task db tr)
      else if re_op event \<noteq> Add then (None, db, tr)
      else if re_emoji_name event \<noteq> taskEmoji (config ctx) then (None, db, tr)
      else
        (let tr1 = tr @ [GetMessage (re_message_id event)] in
         case get_message_result (client ctx) tr1 of
           Inl e \<Rightarrow> (Some e, db, tr1)
         | Inr None \<Rightarrow> (None, db, tr1)
         | Inr (Some msg) \<Rightarrow>
             if msg_type msg \<noteq> Stream then (None, db, tr1)
             else if getTaskBySourceMsgId db (msg_id msg) \<noteq> None then (None, db, tr1)
             else promoteByReaction l event ctx now msg db tr1))"

text \<open>
  For the statements: the name \<open>onReaction\<close> reads from the answer to a user lookup, and
  the reaction events of a user on a message.
\<close>

definition lookedUpName :: "gateway \<Rightarrow> call list \<Rightarrow> jsstring" where
  "lookedUpName gw h = (case get_user_result gw h of Inr (Some n) \<Rightarrow> n | _ \<Rightarrow> js ''Unknown'')"

definition userLookupsSucceed :: "gateway \<Rightarrow> bool" where
  "userLookupsSucceed gw = (\<forall>h. \<exists>u. get_user_result gw h = Inr u)"

definition reaction :: "reaction_op \<Rightarrow> nat \<Rightarrow> nat \<Rightarrow> jsstring \<Rightarrow> ZulipReactionEvent" where
  "reaction o' u m e = \<lparr>re_op = o', re_user_id = u, re_message_id = m, re_emoji_name = e\<rparr>"

text \<open>
  For the examples: identity stand-ins for the library functions (right on lower-case
  ASCII text without markup), a gateway that knows the message 99 and the user 3, and the
  database after message 99 was promoted, with its card posted as message 3.
\<close>

definition lib0 :: lib where
  "lib0 = \<lparr>lib_htmlToText = (\<lambda>h. h), toLowerCase = (\<lambda>s. s), encodeURIComponent = (\<lambda>s. s)\<rparr>"

definition msg99 :: ZulipMessage where
  "msg99 = \<lparr>msg_id = 99, sender_email = js ''bob@example.com'', sender_full_name = js ''Bob'',
            msg_type = Stream, display_recipient = js ''general'', msg_subject = js ''help'',
            msg_content = js ''fix the build''\<rparr>"

definition gateway1 :: gateway where
  "gateway1 = gateway_ok\<lparr>retrieve_result := (\<lambda>h. Inr [msg99, msg0]),
                         get_message_result := (\<lambda>h. Inr (Some msg99)),
                         get_user_result := (\<lambda>h. Inr (Some (js ''Ann'')))\<rparr>"

definition ctx1 :: ServiceContext where
  "ctx1 = ctx0\<lparr>client := gateway1\<rparr>"

definition task99 :: TaskRow where
  "task99 = \<lparr>t_id = 1, t_content = js ''fix the build'', creator_name = js ''Ann'',
             creator_user_id = None, status = Open, source_channel = js ''general'',
             source_topic = js ''help'', source_msg_id = 99,
             task_channel = Some (js ''tasks''), task_topic = Some (js ''general / help''),
             task_msg_id = Some 3, own_topic = 0, t_created_at = 5, completed_at = None,
             completed_by = None\<rparr>"

definition db99 :: database where
  "db99 = empty_database\<lparr>tasks := [task99], tasks_seq := 1\<rparr>"

text \<open>
  For the statements: the source message ids of the task rows, and that an operation
  leaves them as they are or appends one that was not there.
\<close>

definition srcIds :: "database \<Rightarrow> nat list" where
  "srcIds db = map source_msg_id (tasks db)"

definition grows :: "database \<Rightarrow> database \<Rightarrow> bool" where
  "grows db db' = (srcIds db' = srcIds db \<or> (\<exists>s. s \<notin> set (srcIds db) \<and> srcIds db' = srcIds db @ [s]))"

section \<open>The dashboards service (services/dashboards.ts)\<close>

text \<open>
  The producer registry (dashboards/registry.ts): the names with their intervals in
  milliseconds.
\<close>

definition dashboardRegistry :: "(jsstring \<times> nat) list" where
  "dashboardRegistry = [(js ''clock'', 5000), (js ''help'', 3600000), (js ''rss'', 300000)]"

definition registry_has :: "jsstring \<Rightarrow> bool" where
  "registry_has name = (name \<in> fst ` set dashboardRegistry)"

text \<open>
  What the scheduler does besides the database: \<open>TickDashboard row\<close> is a call of
  \<open>tickDashboard(row, ctx)\<close>, which is not awaited; \<open>SetInterval row ms\<close> arms an interval
  whose callback ticks that row; \<open>ClearInterval\<close> clears the interval of a row id.
\<close>

datatype timer_call =
    TickDashboard DashboardRow
  | SetInterval DashboardRow nat
  | ClearInterval nat

fun isTickOf :: "nat \<Rightarrow> timer_call \<Rightarrow> bool" where
  "isTickOf i (TickDashboard r) = (d_id r = i)"
| "isTickOf i _ = False"

fun isArmOf :: "nat \<Rightarrow> timer_call \<Rightarrow> bool" where
  "isArmOf i (SetInterval r ms) = (d_id r = i)"
| "isArmOf i _ = False"

text \<open>
  The state of the scheduler: the database, the module's map \<open>timers\<close> from row ids to
  intervals (an interval is known by the row its callback ticks), in insertion order, and
  the calls made.
\<close>

record scheduler =
  sch_db :: database
  timers :: "(nat \<times> DashboardRow) list"
  sch_calls :: "timer_call list"

definition timers_has :: "scheduler \<Rightarrow> nat \<Rightarrow> bool" where
  "timers_has st i = (i \<in> fst ` set (timers st))"

definition stopAndCleanup :: "DashboardRow \<Rightarrow> scheduler \<Rightarrow> scheduler" where
  "stopAndCleanup row st =
     (let st1 = (if timers_has st (d_id row)
                 then st\<lparr>timers := filter (\<lambda>t. fst t \<noteq> d_id row) (timers st),
                         sch_calls := sch_calls st @ [ClearInterval (d_id row)]\<rparr>
                 else st)
      in st1\<lparr>sch_db := deleteDashboard (sch_db st1) (d_id row)\<rparr>)"

text \<open>
  A call of \<open>tickDashboard\<close>, up to its first \<open>await\<close>: a row of an unknown name is
  cleaned up at once; for a known name the producer's \<open>fetch\<close> is started, and what
  follows (the fetch, the PATCH of the pinned message, the cleanup when the message is
  gone) runs after the caller has gone on.
\<close>

definition tickDashboard_start :: "DashboardRow \<Rightarrow> scheduler \<Rightarrow> scheduler" where
  "tickDashboard_start row st =
     (let st1 = st\<lparr>sch_calls := sch_calls st @ [TickDashboard row]\<rparr> in
      if \<not> registry_has (d_name row) then stopAndCleanup row st1 else st1)"

definition startTimer :: "DashboardRow \<Rightarrow> bool \<Rightarrow> scheduler \<Rightarrow> scheduler" where
  "startTimer row immediate st =
     (if timers_has st (d_id row) then st
      else
        let st1 = (if immediate then tickDashboard_start row st else st) in
        st1\<lparr>timers := timers st1 @ [(d_id row, row)],
            sch_calls := sch_calls st1 @ [SetInterval row (interval_ms row)]\<rparr>)"

text \<open>The body of \<open>for (const row of rows)\<close> in \<open>init\<close>.\<close>

definition init_row :: "scheduler \<Rightarrow> DashboardRow \<Rightarrow> scheduler" where
  "init_row st row =
     (if \<not> registry_has (d_name row)
      then st\<lparr>sch_db := deleteDashboard (sch_db st) (d_id row)\<rparr>
      else startTimer row True st)"

definition dashboards_init :: "scheduler \<Rightarrow> scheduler" where
  "dashboards_init st = foldl init_row st (getActiveDashboards (sch_db st))"

text \<open>The scheduler of a process that starts on a database: no timer, no call yet.\<close>

definition startup :: "database \<Rightarrow> scheduler" where
  "startup db = \<lparr>sch_db = db, timers = [], sch_calls = []\<rparr>"

text \<open>For the examples: a database with a feed dashboard and a row of a name that is gone.\<close>

definition row_rss :: DashboardRow where
  "row_rss = \<lparr>d_id = 1, d_name = js ''rss'', d_channel = js ''news'', d_topic = js ''feed'',
              d_msg_id = 50, interval_ms = 300000, d_params = js ''https://example.com/feed.xml'',
              bootstrapped = 1, d_created_at = 5\<rparr>"

definition row_gone :: DashboardRow where
  "row_gone = \<lparr>d_id = 2, d_name = js ''weather'', d_channel = js ''news'', d_topic = js ''feed'',
               d_msg_id = 51, interval_ms = 60000, d_params = [],
               bootstrapped = 0, d_created_at = 6\<rparr>"

definition db_dash :: database where
  "db_dash = empty_database\<lparr>dashboards := [row_rss, row_gone], dashboards_seq := 2\<rparr>"

section \<open>The feed dashboard (dashboards/rss.ts)\<close>

record FeedItem =
  guid :: jsstring
  fi_title :: jsstring
  link :: jsstring
  description :: jsstring
  pubDate :: jsstring
  image :: jsstring

definition MAX_DISPLAY_ITEMS :: nat where
  "MAX_DISPLAY_ITEMS = 10"

text \<open>
  What fetching and parsing the feed gives: \<open>fetch\<close> throws, the response is not ok (with
  its status), \<open>parseFeed\<close> throws, or the feed with its title and items.
\<close>

datatype feed_response =
    FetchThrows error
  | HttpError nat
  | ParseThrows error
  | Feed jsstring "FeedItem list"

text \<open>
  The collaborators of \<open>rssDef.fetch\<close> as parameters: the answer of the feed's server,
  \<open>fetchOgImage\<close> (a page fetch that returns \<open>""\<close> on any failure), and the two renderers,
  which read the clock.
\<close>

record rss_env =
  feed_result :: feed_response
  fetchOgImage :: "jsstring \<Rightarrow> jsstring"
  renderItem :: "FeedItem \<Rightarrow> jsstring"
  renderFeed :: "jsstring \<Rightarrow> FeedItem list \<Rightarrow> nat \<Rightarrow> jsstring"

text \<open>The first \<open>MAX_DISPLAY_ITEMS\<close> items get an image from their page when they have none.\<close>

definition resolveImages :: "rss_env \<Rightarrow> FeedItem list \<Rightarrow> FeedItem list" where
  "resolveImages env items =
     map (\<lambda>item. if image item = [] \<and> link item \<noteq> [] then item\<lparr>image := fetchOgImage env (link item)\<rparr>
                  else item) (take MAX_DISPLAY_ITEMS items)
     @ drop MAX_DISPLAY_ITEMS items"

text \<open>\<open>for (const item of feed.items) markFeedItemSeen(row.id, item.guid)\<close>\<close>

fun markAllSeen :: "database \<Rightarrow> nat \<Rightarrow> FeedItem list \<Rightarrow> nat \<Rightarrow> error option \<times> database" where
  "markAllSeen db i [] now = (None, db)"
| "markAllSeen db i (item # items) now =
     (case markFeedItemSeen db i (guid item) now of
        Inl e \<Rightarrow> (Some e, db)
      | Inr (_, db') \<Rightarrow> markAllSeen db' i items now)"

text \<open>The loop that collects \<open>newItems\<close>: the items whose marker was inserted.\<close>

fun collectNew ::
  "database \<Rightarrow> nat \<Rightarrow> FeedItem list \<Rightarrow> nat \<Rightarrow> FeedItem list \<Rightarrow> error option \<times> FeedItem list \<times> database" where
  "collectNew db i [] now newItems = (None, newItems, db)"
| "collectNew db i (item # items) now newItems =
     (case markFeedItemSeen db i (guid item) now of
        Inl e \<Rightarrow> (Some e, newItems, db)
      | Inr (new, db') \<Rightarrow> collectNew db' i items now (if new then newItems @ [item] else newItems))"

text \<open>\<open>for (const item of newItems.reverse()) await ctx.client.messages.send(...)\<close>\<close>

definition postItems ::
  "rss_env \<Rightarrow> ServiceContext \<Rightarrow> DashboardRow \<Rightarrow> FeedItem list \<Rightarrow> call list \<Rightarrow> error option \<times> call list" where
  "postItems env ctx row newItems tr =
     sendChunks (client ctx) (d_channel row) (d_topic row) (map (renderItem env) (rev newItems)) tr"

text \<open>
  \<open>rssDef.fetch\<close>: the content for the pinned message or the error thrown, the row (whose
  \<open>bootstrapped\<close> the function sets), the database and the calls.
\<close>

definition rss_fetch ::
  "rss_env \<Rightarrow> ServiceContext \<Rightarrow> DashboardRow \<Rightarrow> nat \<Rightarrow> database \<Rightarrow> call list \<Rightarrow>
     (error + jsstring) \<times> DashboardRow \<times> database \<times> call list" where
  "rss_fetch env ctx row now db tr =
     (case feed_result env of
        FetchThrows e \<Rightarrow> (Inl e, row, db, tr)
      | HttpError st \<Rightarrow>
          (Inr (js ''**RSS** | Failed to fetch feed (HTTP '' @ showNat st @ js '')''), row, db, tr)
      | ParseThrows e \<Rightarrow> (Inl e, row, db, tr)
      | Feed title items0 \<Rightarrow>
          (let items = resolveImages env items0 in
           if bootstrapped row = 0 then
             (case markAllSeen db (d_id row) items now of
                (Some e, db1) \<Rightarrow> (Inl e, row, db1, tr)
              | (None, db1) \<Rightarrow>
                  (Inr (renderFeed env title items 300000), row\<lparr>bootstrapped := 1\<rparr>,
                   setDashboardBootstrapped db1 (d_id row), tr))
           else
             (case collectNew db (d_id row) items now [] of
                (Some e, newItems, db1) \<Rightarrow> (Inl e, row, db1, tr)
              | (None, newItems, db1) \<Rightarrow>
                  (case postItems env ctx row newItems tr of
                     (Some e, tr1) \<Rightarrow> (Inl e, row, db1, tr1)
                   | (None, tr1) \<Rightarrow> (Inr (renderFeed env title items 300000), row, db1, tr1)))))"


text \<open>For the examples: three items, newest first, and a feed environment.\<close>

definition item :: "string \<Rightarrow> FeedItem" where
  "item g = \<lparr>guid = js g, fi_title = js g, link = [], description = [], pubDate = [], image = []\<rparr>"

definition env_feed :: "FeedItem list \<Rightarrow> rss_env" where
  "env_feed items = \<lparr>feed_result = Feed (js ''Example'') items, fetchOgImage = (\<lambda>u. []),
                      renderItem = (\<lambda>it. js ''**'' @ fi_title it @ js ''**''),
                      renderFeed = (\<lambda>title items ms. js ''## '' @ title)\<rparr>"

text \<open>
  A feed dashboard that was just started, with its database, and the database after its
  first tick on a feed of the items c, b and a.
\<close>

definition row_new :: DashboardRow where
  "row_new = row_rss\<lparr>bootstrapped := 0\<rparr>"

definition db_new :: database where
  "db_new = empty_database\<lparr>dashboards := [row_new], dashboards_seq := 1\<rparr>"

definition db_seen :: database where
  "db_seen = empty_database\<lparr>dashboards := [row_rss], dashboards_seq := 1,
       feed_items := [\<lparr>f_id = 1, dashboard_id = 1, item_guid = js ''c'', seen_at = 9\<rparr>,
                      \<lparr>f_id = 2, dashboard_id = 1, item_guid = js ''b'', seen_at = 9\<rparr>,
                      \<lparr>f_id = 3, dashboard_id = 1, item_guid = js ''a'', seen_at = 9\<rparr>],
       feed_items_seq := 3\<rparr>"

text \<open>
  For the statements and proofs about \<open>init\<close>: a row of a known name; the database
  after deleting rows; the timers armed and the calls made for rows that are resumed.
\<close>

definition known :: "DashboardRow \<Rightarrow> bool" where
  "known r = registry_has (d_name r)"

definition deleteAll :: "database \<Rightarrow> DashboardRow list \<Rightarrow> database" where
  "deleteAll db rs = foldl (\<lambda>d r. deleteDashboard d (d_id r)) db rs"

definition armed :: "DashboardRow list \<Rightarrow> (nat \<times> DashboardRow) list" where
  "armed rs = map (\<lambda>r. (d_id r, r)) rs"

definition resumed :: "DashboardRow list \<Rightarrow> timer_call list" where
  "resumed rs = concat (map (\<lambda>r. [TickDashboard r, SetInterval r (interval_ms r)]) rs)"


section \<open>Properties of splitMessage\<close>

lemma lastIndexOf_cases:
  "lastIndexOf s p pos = - 1 \<or>
   (0 \<le> lastIndexOf s p pos \<and> lastIndexOf s p pos \<le> int (min pos (length s - length p)) \<and>
    take (length p) (drop (nat (lastIndexOf s p pos)) s) = p)"
proof (cases "length s < length p")
  case True
  then show ?thesis by (simp add: lastIndexOf_def)
next
  case False
  let ?P = "\<lambda>k. take (length p) (drop k s) = p"
  let ?ks = "rev [0..<Suc (min pos (length s - length p))]"
  show ?thesis
  proof (cases "filter ?P ?ks")
    case Nil
    with False show ?thesis by (simp add: lastIndexOf_def)
  next
    case (Cons k ks)
    then have "k \<in> set (filter ?P ?ks)" by simp
    then have "k \<le> min pos (length s - length p)" and "?P k"
      by (auto simp del: upt_Suc)
    moreover from False Cons have "lastIndexOf s p pos = int k"
      by (simp add: lastIndexOf_def)
    ultimately show ?thesis by simp
  qed
qed

lemma lastIndexOf_le: "lastIndexOf s p pos \<le> int pos"
  using lastIndexOf_cases [of s p pos] by auto

lemma splitIdx_le: "splitIdx r m \<le> m"
  using lastIndexOf_le [of r "js ''\<newline>\<newline>''" m] lastIndexOf_le [of r "js ''\<newline>''" m]
  by (auto simp add: splitIdx_def Let_def)

lemma splitIdx_pos: "0 < m \<Longrightarrow> 0 < splitIdx r m"
  by (simp add: splitIdx_def Let_def)

lemma length_trimStart_le: "length (trimStart s) \<le> length s"
  by (simp add: trimStart_def length_dropWhile_le)

lemma length_trimEnd_le: "length (trimEnd s) \<le> length s"
  using length_dropWhile_le [of isWhiteSpace "rev s"] by (simp add: trimEnd_def)

lemma splitLoop_terminates:
  assumes "0 < m"
  shows "\<exists>cs. splitLoop m r acc = Some cs"
proof (induction r arbitrary: acc rule: length_induct)
  case (1 r)
  show ?case
  proof (cases "m < length r")
    case False
    then show ?thesis by (subst splitLoop.simps) simp
  next
    case True
    let ?r' = "trimStart (drop (splitIdx r m) r)"
    have "length ?r' \<le> length r - splitIdx r m"
      using length_trimStart_le [of "drop (splitIdx r m) r"] by simp
    with True splitIdx_pos [OF assms, of r] have "length ?r' < length r" by simp
    with 1 obtain cs where "splitLoop m ?r' (acc @ [trimEnd (take (splitIdx r m) r)]) = Some cs"
      by blast
    with True show ?thesis by (subst splitLoop.simps) simp
  qed
qed

text \<open>
  Claim C10. For every input string and every positive maximum length, \<open>splitMessage\<close>
  returns: the split index of an iteration is at least 1 and at most \<open>maxLen\<close>, so every
  iteration strictly shortens the remaining text.
\<close>

theorem splitMessage_terminates:
  assumes "0 < maxLen"
  shows "\<exists>chunks. splitMessage content maxLen = Some chunks"
  using splitLoop_terminates [OF assms, of content "[]"] by (simp add: splitMessage_def)

text \<open>Claim C10, at a text of twelve code units and \<open>maxLen = 4\<close>.\<close>

theorem splitMessage_terminates_witness:
  "(0::nat) < 4 \<and> (\<exists>chunks. splitMessage (js ''ab\<newline>\<newline>cd ef\<newline>gh'') 4 = Some chunks)"
  using splitMessage_terminates [of 4 "js ''ab\<newline>\<newline>cd ef\<newline>gh''"] by simp

text \<open>What it returns there: a paragraph split, then a hard cut.\<close>

lemma splitMessage_example:
  "splitMessage (js ''ab\<newline>\<newline>cd ef\<newline>gh'') 4 =
     Some [js ''ab'', js ''cd e'', js ''f\<newline>gh'']"
  by code_simp

lemma rejoin_Nil: "rejoin [] [] = []"
  by (simp add: rejoin_def)

lemma rejoin_Cons: "rejoin (c # cs) (g # gs) = c @ g @ rejoin cs gs"
  by (simp add: rejoin_def)

lemma trimEnd_decomp: "\<exists>g. allWhiteSpace g \<and> trimEnd s @ g = s"
proof -
  let ?g = "rev (takeWhile isWhiteSpace (rev s))"
  have "rev (takeWhile isWhiteSpace (rev s) @ dropWhile isWhiteSpace (rev s)) = s"
    by simp
  then have "trimEnd s @ ?g = s"
    by (simp only: rev_append trimEnd_def)
  moreover have "allWhiteSpace ?g"
    by (auto simp: allWhiteSpace_def list_all_iff dest: set_takeWhileD)
  ultimately show ?thesis by blast
qed

lemma trimStart_decomp: "\<exists>g. allWhiteSpace g \<and> g @ trimStart s = s"
proof -
  have "allWhiteSpace (takeWhile isWhiteSpace s)"
    by (auto simp: allWhiteSpace_def list_all_iff dest: set_takeWhileD)
  moreover have "takeWhile isWhiteSpace s @ trimStart s = s"
    by (simp add: trimStart_def)
  ultimately show ?thesis by blast
qed

lemma allWhiteSpace_append: "allWhiteSpace a \<Longrightarrow> allWhiteSpace b \<Longrightarrow> allWhiteSpace (a @ b)"
  by (simp add: allWhiteSpace_def)

lemma split_decomp:
  "\<exists>g. allWhiteSpace g \<and> trimEnd (take k r) @ g @ trimStart (drop k r) = r"
proof -
  obtain g1 where g1: "allWhiteSpace g1" "trimEnd (take k r) @ g1 = take k r"
    using trimEnd_decomp by blast
  obtain g2 where g2: "allWhiteSpace g2" "g2 @ trimStart (drop k r) = drop k r"
    using trimStart_decomp by blast
  have "trimEnd (take k r) @ (g1 @ g2) @ trimStart (drop k r) = take k r @ drop k r"
    using g1(2) g2(2) by (metis append.assoc)
  then show ?thesis using allWhiteSpace_append [OF g1(1) g2(1)]
    by (metis append_take_drop_id)
qed

lemma trimStart_id: "\<forall>u\<in>set s. \<not> isWhiteSpace u \<Longrightarrow> trimStart s = s"
  by (cases s) (simp_all add: trimStart_def)

lemma trimEnd_id: "\<forall>u\<in>set s. \<not> isWhiteSpace u \<Longrightarrow> trimEnd s = s"
proof -
  assume a: "\<forall>u\<in>set s. \<not> isWhiteSpace u"
  then have "\<forall>u\<in>set (rev s). \<not> isWhiteSpace u" by simp
  then have "dropWhile isWhiteSpace (rev s) = rev s"
    by (cases "rev s") simp_all
  then show ?thesis by (simp add: trimEnd_def)
qed

lemma js_newline: "js ''\<newline>'' = [0xA]" "js ''\<newline>\<newline>'' = [0xA, 0xA]"
  by (simp_all add: js_def)

lemma isWhiteSpace_newline: "isWhiteSpace 0xA"
  by (simp add: isWhiteSpace_def)

lemma lastIndexOf_absent:
  assumes "x \<in> set p" "x \<notin> set s"
  shows "lastIndexOf s p pos = - 1"
proof (rule ccontr)
  assume "lastIndexOf s p pos \<noteq> - 1"
  with lastIndexOf_cases [of s p pos]
  have "take (length p) (drop (nat (lastIndexOf s p pos)) s) = p" by blast
  then have "set p \<subseteq> set s"
    by (metis set_take_subset set_drop_subset subset_trans)
  with assms show False by blast
qed

lemma splitIdx_hard:
  assumes "\<forall>u\<in>set r. \<not> isWhiteSpace u"
  shows "splitIdx r m = m"
proof -
  from assms isWhiteSpace_newline have "0xA \<notin> set r" by blast
  then have "lastIndexOf r (js ''\<newline>\<newline>'') m = - 1" "lastIndexOf r (js ''\<newline>'') m = - 1"
    by (simp_all add: lastIndexOf_absent [of "0xA"] js_newline)
  then show ?thesis by (simp add: splitIdx_def)
qed

lemma ceil_Suc:
  fixes k m :: nat
  assumes "0 < m"
  shows "(Suc k + m - 1) div m = Suc (k div m)"
proof -
  have "Suc k + m - 1 = k + m" by simp
  then show ?thesis using assms by (simp only: div_add_self2)
qed

lemma ceil_step:
  fixes n m :: nat
  assumes "0 < m" "m < n"
  shows "Suc ((n - m + m - 1) div m) = (n + m - 1) div m"
proof -
  from assms obtain k where n: "n = Suc k" by (cases n) simp_all
  from assms n have "n - m = Suc (k - m)" by simp
  then have "(n - m + m - 1) div m = Suc ((k - m) div m)"
    using ceil_Suc [OF assms(1), of "k - m"] by simp
  moreover have "(n + m - 1) div m = Suc (k div m)"
    using ceil_Suc [OF assms(1), of k] n by simp
  moreover have "k div m = Suc ((k - m) div m)"
    using assms n by (simp add: le_div_geq)
  ultimately show ?thesis by simp
qed

lemma ceil_base:
  fixes n m :: nat
  assumes "0 < n" "n \<le> m"
  shows "(n + m - 1) div m = 1"
proof -
  from assms obtain k where n: "n = Suc k" by (cases n) simp_all
  have "0 < m" using assms by simp
  then have "(n + m - 1) div m = Suc (k div m)"
    using ceil_Suc [of m k] n by simp
  moreover have "k div m = 0" using assms n by simp
  ultimately show ?thesis by simp
qed

lemma splitLoop_spec:
  assumes "0 < m"
  shows "\<exists>cs gaps. splitLoop m r acc = Some (acc @ cs)
           \<and> (\<forall>c\<in>set cs. length c \<le> m)
           \<and> length gaps = length cs \<and> (\<forall>g\<in>set gaps. allWhiteSpace g)
           \<and> rejoin cs gaps = r
           \<and> (m < length r \<longrightarrow> cs \<noteq> [])
           \<and> ((\<forall>u\<in>set r. \<not> isWhiteSpace u) \<longrightarrow> length cs = (length r + m - 1) div m)"
proof (induction r arbitrary: acc rule: length_induct)
  case (1 r)
  show ?case
  proof (cases "m < length r")
    case False
    show ?thesis
    proof (cases "r = []")
      case True
      then have "splitLoop m r acc = Some (acc @ [])"
        by (subst splitLoop.simps) simp
      moreover have "(0 + m - 1) div m = 0" using assms by simp
      ultimately show ?thesis using True
        by (intro exI [of _ "[]"]) (simp add: rejoin_Nil)
    next
      case ne: False
      with False have "splitLoop m r acc = Some (acc @ [r])"
        by (subst splitLoop.simps) simp
      moreover have "(length r + m - 1) div m = 1"
        using ne False by (intro ceil_base) simp_all
      ultimately show ?thesis using False
        by (intro exI [of _ "[r]"] exI [of _ "[[]]"]) (simp add: rejoin_def allWhiteSpace_def)
    qed
  next
    case True
    let ?k = "splitIdx r m"
    let ?c = "trimEnd (take ?k r)"
    let ?r' = "trimStart (drop ?k r)"
    have kpos: "0 < ?k" and kle: "?k \<le> m"
      using assms by (simp_all add: splitIdx_pos splitIdx_le)
    have "length ?r' \<le> length r - ?k"
      using length_trimStart_le [of "drop ?k r"] by simp
    with True kpos have less: "length ?r' < length r" by simp
    from 1 less obtain cs gaps where
      run: "splitLoop m ?r' ((acc @ [?c]) ) = Some ((acc @ [?c]) @ cs)"
      and len: "\<forall>c\<in>set cs. length c \<le> m"
      and gl: "length gaps = length cs" and gw: "\<forall>g\<in>set gaps. allWhiteSpace g"
      and rj: "rejoin cs gaps = ?r'"
      and cnt: "(\<forall>u\<in>set ?r'. \<not> isWhiteSpace u) \<longrightarrow> length cs = (length ?r' + m - 1) div m"
      by blast
    obtain g where g: "allWhiteSpace g" "?c @ g @ ?r' = r"
      using split_decomp by blast
    have clen: "length ?c \<le> m"
      using length_trimEnd_le [of "take ?k r"] kle by simp
    have run': "splitLoop m r acc = Some (acc @ (?c # cs))"
      using True run by (subst splitLoop.simps) simp
    have rj': "rejoin (?c # cs) (g # gaps) = r"
      using g(2) rj by (simp add: rejoin_Cons)
    have cnt': "length (?c # cs) = (length r + m - 1) div m" if nows: "\<forall>u\<in>set r. \<not> isWhiteSpace u"
    proof -
      have k: "?k = m" using nows by (rule splitIdx_hard)
      have dn: "\<forall>u\<in>set (drop m r). \<not> isWhiteSpace u"
        using nows by (meson in_set_dropD)
      then have r': "?r' = drop m r" using k by (simp add: trimStart_id)
      with dn cnt have "length cs = (length r - m + m - 1) div m" by simp
      then show ?thesis using ceil_step [OF assms True] by simp
    qed
    show ?thesis
      using run' len clen gl gw g(1) rj' cnt'
      by (intro exI [of _ "?c # cs"] exI [of _ "g # gaps"]) simp
  qed
qed

lemma lastIndexOf_eqI:
  assumes lp: "length p \<le> length s"
    and k: "k \<le> min pos (length s - length p)"
    and hit: "take (length p) (drop k s) = p"
    and later: "\<And>j. k < j \<Longrightarrow> j \<le> min pos (length s - length p) \<Longrightarrow> take (length p) (drop j s) \<noteq> p"
  shows "lastIndexOf s p pos = int k"
proof -
  let ?m = "min pos (length s - length p)"
  let ?P = "\<lambda>k. take (length p) (drop k s) = p"
  have "[0..<Suc ?m] = [0..<k] @ k # [Suc k..<Suc ?m]"
  proof -
    obtain d where d: "Suc ?m = k + d" and "0 < d"
      using k by (metis le_imp_less_Suc less_imp_add_positive)
    have "[0..<k + d] = [0..<k] @ [k..<k + d]"
      by (rule upt_add_eq_append) simp
    moreover have "[k..<k + d] = k # [Suc k..<k + d]"
      using \<open>0 < d\<close> by (intro upt_conv_Cons) simp
    ultimately show ?thesis by (simp only: d)
  qed
  then have "rev [0..<Suc ?m] = rev [Suc k..<Suc ?m] @ k # rev [0..<k]"
    by (simp only: rev_append rev.simps append_assoc append.simps)
  moreover have "filter ?P (rev [Suc k..<Suc ?m]) = []"
  proof -
    have "\<not> ?P j" if "j \<in> set (rev [Suc k..<Suc ?m])" for j
    proof -
      from that have "k < j" "j \<le> ?m" by (auto simp del: upt_Suc)
      then show ?thesis by (rule later)
    qed
    then show ?thesis by (simp only: filter_empty_conv) blast
  qed
  ultimately have "filter ?P (rev [0..<Suc ?m]) = k # filter ?P (rev [0..<k])"
    using hit by (simp del: upt_Suc)
  with lp show ?thesis by (simp add: lastIndexOf_def del: upt_Suc)
qed

lemma splitLoop_step:
  "m < length r \<Longrightarrow> splitLoop m r acc =
     splitLoop m (trimStart (drop (splitIdx r m) r)) (acc @ [trimEnd (take (splitIdx r m) r)])"
  by (subst splitLoop.simps) simp

lemma splitLoop_done:
  "length r \<le> m \<Longrightarrow> splitLoop m r acc = Some (if 0 < length r then acc @ [r] else acc)"
  by (subst splitLoop.simps) simp

lemma count_list_take_le: "count_list (take n xs) x \<le> count_list xs x"
proof -
  have "count_list (take n xs @ drop n xs) x = count_list (take n xs) x + count_list (drop n xs) x"
    by (rule count_list_append)
  then show ?thesis by simp
qed

lemma count_list_drop_le: "count_list (drop n xs) x \<le> count_list xs x"
proof -
  have "count_list (take n xs @ drop n xs) x = count_list (take n xs) x + count_list (drop n xs) x"
    by (rule count_list_append)
  then show ?thesis by simp
qed

lemma lastIndexOf_pair_absent:
  assumes "x \<notin> set a" "x \<notin> set b"
  shows "lastIndexOf (a @ x # b) [x, x] pos = - 1"
proof (rule ccontr)
  let ?s = "a @ x # b"
  assume "lastIndexOf ?s [x, x] pos \<noteq> - 1"
  with lastIndexOf_cases [of ?s "[x, x]" pos]
  have "take (length [x, x]) (drop (nat (lastIndexOf ?s [x, x] pos)) ?s) = [x, x]" by blast
  then obtain k where "take 2 (drop k ?s) = [x, x]"
    by (metis length_Cons list.size(3) numeral_2_eq_2)
  then have "count_list (take 2 (drop k ?s)) x = 2" by simp
  then have "2 \<le> count_list ?s x"
    using count_list_take_le [of 2 "drop k ?s" x] count_list_drop_le [of k ?s x] by linarith
  moreover have "count_list ?s x = 1"
    using assms by (simp add: count_list_0_iff)
  ultimately show False by simp
qed

lemma lastIndexOf_single:
  assumes "x \<notin> set b" "length a \<le> pos"
  shows "lastIndexOf (a @ x # b) [x] pos = int (length a)"
proof (rule lastIndexOf_eqI)
  show "length [x] \<le> length (a @ x # b)" by simp
  show "length a \<le> min pos (length (a @ x # b) - length [x])" using assms by simp
  show "take (length [x]) (drop (length a) (a @ x # b)) = [x]" by simp
  fix j assume "length a < j"
  then have "drop j (a @ x # b) = drop (j - Suc (length a)) b"
    by (simp add: drop_Cons')
  moreover have "x \<notin> set (take 1 (drop (j - Suc (length a)) b))"
    using assms(1) by (meson in_set_takeD in_set_dropD)
  ultimately show "take (length [x]) (drop j (a @ x # b)) \<noteq> [x]"
    by (metis One_nat_def length_Cons list.set_intros(1) list.size(3))
qed

lemma splitIdx_single_newline:
  assumes "0xA \<notin> set a" "0xA \<notin> set b" "0 < length a" "length a \<le> m"
  shows "splitIdx (a @ 0xA # b) m = length a"
  using assms
  by (simp add: splitIdx_def js_newline lastIndexOf_pair_absent lastIndexOf_single)

lemma splitMessage_spec:
  assumes "0 < m" "m < length content"
  shows "\<exists>c0 rest gaps. splitMessage content m = Some (c0 # rest)
           \<and> (\<forall>c\<in>set (c0 # rest). length c \<le> m)
           \<and> length gaps = Suc (length rest) \<and> (\<forall>g\<in>set gaps. allWhiteSpace g)
           \<and> rejoin (c0 # rest) gaps = content
           \<and> ((\<forall>u\<in>set content. \<not> isWhiteSpace u) \<longrightarrow>
                  length rest = ceilDiv (length content - m) m)"
proof -
  from splitLoop_spec [OF assms(1), of content "[]"] assms(2)
  obtain cs gaps where run: "splitLoop m content [] = Some cs"
    and len: "\<forall>c\<in>set cs. length c \<le> m"
    and gl: "length gaps = length cs" and gw: "\<forall>g\<in>set gaps. allWhiteSpace g"
    and rj: "rejoin cs gaps = content" and ne: "cs \<noteq> []"
    and cnt: "(\<forall>u\<in>set content. \<not> isWhiteSpace u) \<longrightarrow> length cs = (length content + m - 1) div m"
    by auto
  from ne obtain c0 rest where cs: "cs = c0 # rest" by (cases cs) auto
  have "length rest = ceilDiv (length content - m) m" if "\<forall>u\<in>set content. \<not> isWhiteSpace u"
  proof -
    from that cnt cs have "Suc (length rest) = (length content + m - 1) div m" by simp
    with ceil_step [OF assms] show ?thesis by (simp add: ceilDiv_def)
  qed
  moreover have "splitMessage content m = Some (c0 # rest)"
    using run cs assms(2) by (simp add: splitMessage_def)
  moreover have "length gaps = Suc (length rest)" using gl cs by simp
  ultimately show ?thesis using len gw rj cs by blast
qed

lemma sendChunks_ok:
  assumes "sendsSucceed gw"
  shows "sendChunks gw ch tp cs tr = (None, tr @ map (MessagesSend ch tp) cs)"
proof (induction cs arbitrary: tr)
  case Nil
  then show ?case by simp
next
  case (Cons c cs)
  from assms obtain i where "send_result gw (tr @ [MessagesSend ch tp c]) = Inr i"
    unfolding sendsSucceed_def by blast
  then show ?case by (simp add: messages_send_def Cons)
qed

lemma MAX_pos: "0 < MAX_MESSAGE_LENGTH"
  by (simp add: MAX_MESSAGE_LENGTH_def)

text \<open>
  Claim C1, as amended. On a gateway whose sends succeed: for a text at or under the limit
  (9500 code units) \<open>finalize\<close> makes exactly one edit of the placeholder and posts
  nothing; for a longer text it makes exactly one edit, with the first chunk of
  \<open>splitMessage\<close>, and posts every further chunk, in order. Every chunk is at most the limit
  long, and the chunks with a white-space gap after each of them concatenate to the text.
  The number of posted messages is \<open>\<lceil>(len - limit) / limit\<rceil>\<close> when the text holds no
  white space (then every cut is a hard cut).
\<close>

theorem finalize_round_trip:
  assumes "sendsSucceed gw"
  shows "(length content \<le> MAX_MESSAGE_LENGTH \<longrightarrow>
            finalize gw sm content tr =
              Some (None, sm\<lparr>finalized := True, spinnerTimer := False\<rparr>,
                    tr @ [PatchMessage (sm_messageId sm) content]))
       \<and> (MAX_MESSAGE_LENGTH < length content \<longrightarrow>
            (\<exists>c0 rest gaps.
               splitMessage content MAX_MESSAGE_LENGTH = Some (c0 # rest)
             \<and> finalize gw sm content tr =
                 Some (None, sm\<lparr>finalized := True, spinnerTimer := False\<rparr>,
                       tr @ PatchMessage (sm_messageId sm) c0
                            # map (MessagesSend (sm_channel sm) (sm_topic sm)) rest)
             \<and> (\<forall>c\<in>set (c0 # rest). length c \<le> MAX_MESSAGE_LENGTH)
             \<and> length gaps = Suc (length rest) \<and> (\<forall>g\<in>set gaps. allWhiteSpace g)
             \<and> rejoin (c0 # rest) gaps = content
             \<and> (noWhiteSpace content \<longrightarrow>
                   length rest = ceilDiv (length content - MAX_MESSAGE_LENGTH) MAX_MESSAGE_LENGTH)))"
proof (intro conjI impI)
  assume "length content \<le> MAX_MESSAGE_LENGTH"
  then show "finalize gw sm content tr =
      Some (None, sm\<lparr>finalized := True, spinnerTimer := False\<rparr>,
            tr @ [PatchMessage (sm_messageId sm) content])"
    by (simp add: finalize_def)
next
  assume long: "MAX_MESSAGE_LENGTH < length content"
  from splitMessage_spec [OF MAX_pos long]
  obtain c0 rest gaps where sp: "splitMessage content MAX_MESSAGE_LENGTH = Some (c0 # rest)"
    and props: "\<forall>c\<in>set (c0 # rest). length c \<le> MAX_MESSAGE_LENGTH"
      "length gaps = Suc (length rest)" "\<forall>g\<in>set gaps. allWhiteSpace g"
      "rejoin (c0 # rest) gaps = content"
      "noWhiteSpace content \<longrightarrow>
          length rest = ceilDiv (length content - MAX_MESSAGE_LENGTH) MAX_MESSAGE_LENGTH"
    unfolding noWhiteSpace_def list_all_iff by blast
  have "finalize gw sm content tr =
      Some (None, sm\<lparr>finalized := True, spinnerTimer := False\<rparr>,
            tr @ PatchMessage (sm_messageId sm) c0
                 # map (MessagesSend (sm_channel sm) (sm_topic sm)) rest)"
    using long sp by (simp add: finalize_def sendChunks_ok [OF assms])
  with sp props show "\<exists>c0 rest gaps.
               splitMessage content MAX_MESSAGE_LENGTH = Some (c0 # rest)
             \<and> finalize gw sm content tr =
                 Some (None, sm\<lparr>finalized := True, spinnerTimer := False\<rparr>,
                       tr @ PatchMessage (sm_messageId sm) c0
                            # map (MessagesSend (sm_channel sm) (sm_topic sm)) rest)
             \<and> (\<forall>c\<in>set (c0 # rest). length c \<le> MAX_MESSAGE_LENGTH)
             \<and> length gaps = Suc (length rest) \<and> (\<forall>g\<in>set gaps. allWhiteSpace g)
             \<and> rejoin (c0 # rest) gaps = content
             \<and> (noWhiteSpace content \<longrightarrow>
                   length rest = ceilDiv (length content - MAX_MESSAGE_LENGTH) MAX_MESSAGE_LENGTH)"
    by blast
qed

lemma sendsSucceed_gateway_ok: "sendsSucceed gateway_ok"
  by (simp add: sendsSucceed_def gateway_ok_def)

text \<open>Claim C1, as amended, at a short text and at 9501 letters \<open>b\<close>.\<close>

theorem finalize_round_trip_witness:
  "sendsSucceed gateway_ok
   \<and> length (js ''short answer'') \<le> MAX_MESSAGE_LENGTH
   \<and> finalize gateway_ok sm0 (js ''short answer'') [] =
        Some (None, sm0\<lparr>finalized := True, spinnerTimer := False\<rparr>,
              [PatchMessage 1 (js ''short answer'')])
   \<and> MAX_MESSAGE_LENGTH < length (replicate 9501 (0x62 :: 16 word))
   \<and> noWhiteSpace (replicate 9501 0x62)
   \<and> (\<exists>c0 rest gaps.
         splitMessage (replicate 9501 0x62) MAX_MESSAGE_LENGTH = Some (c0 # rest)
       \<and> finalize gateway_ok sm0 (replicate 9501 0x62) [] =
           Some (None, sm0\<lparr>finalized := True, spinnerTimer := False\<rparr>,
                 PatchMessage 1 c0 # map (MessagesSend (js ''general'') (js ''help'')) rest)
       \<and> (\<forall>c\<in>set (c0 # rest). length c \<le> MAX_MESSAGE_LENGTH)
       \<and> length gaps = Suc (length rest) \<and> (\<forall>g\<in>set gaps. allWhiteSpace g)
       \<and> rejoin (c0 # rest) gaps = replicate 9501 0x62
       \<and> length rest = 1)"
proof -
  have ok: "sendsSucceed gateway_ok" by (rule sendsSucceed_gateway_ok)
  have short: "length (js ''short answer'') \<le> MAX_MESSAGE_LENGTH"
    by (simp add: js_def MAX_MESSAGE_LENGTH_def)
  have long: "MAX_MESSAGE_LENGTH < length (replicate 9501 (0x62 :: 16 word))"
    by (simp add: MAX_MESSAGE_LENGTH_def)
  have nows: "noWhiteSpace (replicate 9501 0x62)"
    by (simp add: noWhiteSpace_def list_all_iff isWhiteSpace_def)
  have cd: "ceilDiv (length (replicate 9501 (0x62 :: 16 word)) - MAX_MESSAGE_LENGTH) MAX_MESSAGE_LENGTH = 1"
    by (simp add: ceilDiv_def MAX_MESSAGE_LENGTH_def)
  have id1: "sm_messageId sm0 = 1" "sm_channel sm0 = js ''general''" "sm_topic sm0 = js ''help''"
    by (simp_all add: sm0_def)
  from finalize_round_trip [OF ok, of "js ''short answer''" sm0 "[]"] short
  have a: "finalize gateway_ok sm0 (js ''short answer'') [] =
        Some (None, sm0\<lparr>finalized := True, spinnerTimer := False\<rparr>,
              [PatchMessage 1 (js ''short answer'')])"
    by (simp add: id1)
  from finalize_round_trip [OF ok, of "replicate 9501 0x62" sm0 "[]"] long nows
  have b: "\<exists>c0 rest gaps.
         splitMessage (replicate 9501 0x62) MAX_MESSAGE_LENGTH = Some (c0 # rest)
       \<and> finalize gateway_ok sm0 (replicate 9501 0x62) [] =
           Some (None, sm0\<lparr>finalized := True, spinnerTimer := False\<rparr>,
                 PatchMessage 1 c0 # map (MessagesSend (js ''general'') (js ''help'')) rest)
       \<and> (\<forall>c\<in>set (c0 # rest). length c \<le> MAX_MESSAGE_LENGTH)
       \<and> length gaps = Suc (length rest) \<and> (\<forall>g\<in>set gaps. allWhiteSpace g)
       \<and> rejoin (c0 # rest) gaps = replicate 9501 0x62
       \<and> length rest = 1"
    unfolding cd id1 by (simp only: append_Nil) blast
  from ok short a long nows b show ?thesis by blast
qed



lemma trimStart_keep: "\<not> isWhiteSpace x \<Longrightarrow> trimStart (x # xs) = x # xs"
  by (simp add: trimStart_def)

lemma trimStart_skip: "isWhiteSpace x \<Longrightarrow> trimStart (x # xs) = trimStart xs"
  by (simp add: trimStart_def)

lemma isWhiteSpace_b: "\<not> isWhiteSpace 0x62" "\<not> isWhiteSpace 0x63" "\<not> isWhiteSpace 0x61"
  by (simp_all add: isWhiteSpace_def)

lemma split_example:
  "splitMessage (js ''a\<newline>'' @ replicate 9500 0x62 @ js ''c'') MAX_MESSAGE_LENGTH =
     Some [js ''a'', replicate 9500 0x62, js ''c'']"
proof -
  let ?B = "replicate 9500 (0x62 :: 16 word) @ [0x63]"
  let ?C = "0x61 # 0xA # ?B"
  have nowsB: "\<forall>u\<in>set ?B. \<not> isWhiteSpace u"
    by (auto simp: isWhiteSpace_b)
  have k1: "splitIdx ?C 9500 = 1"
    using splitIdx_single_newline [of "[0x61]" ?B 9500] by simp
  have t1: "trimEnd [0x61] = [0x61]"
    by (simp add: trimEnd_def isWhiteSpace_b)
  have r1: "trimStart (0xA # ?B) = ?B"
    using trimStart_id [OF nowsB] by (simp add: trimStart_skip isWhiteSpace_newline)
  have s1: "splitLoop 9500 ?C [] = splitLoop 9500 ?B [[0x61]]"
    by (subst splitLoop_step) (simp_all add: k1 t1 r1)
  have k2: "splitIdx ?B 9500 = 9500"
    using nowsB by (rule splitIdx_hard)
  have t2: "trimEnd (replicate 9500 0x62) = replicate 9500 0x62"
    by (simp add: trimEnd_id isWhiteSpace_b)
  have r2: "trimStart [0x63] = [0x63]"
    by (simp add: trimStart_keep isWhiteSpace_b)
  have s2: "splitLoop 9500 ?B [[0x61]] = splitLoop 9500 [0x63] [[0x61], replicate 9500 0x62]"
    by (subst splitLoop_step) (simp_all add: k2 t2 r2)
  have s3: "splitLoop 9500 [0x63] [[0x61], replicate 9500 0x62] =
      Some [[0x61], replicate 9500 0x62, [0x63]]"
    by (subst splitLoop_done) simp_all
  have "js ''a\<newline>'' @ replicate 9500 0x62 @ js ''c'' = ?C"
    by (simp add: js_def)
  moreover have "js ''a'' = [0x61]" "js ''c'' = [0x63]" by (simp_all add: js_def)
  ultimately show ?thesis
    using s1 s2 s3 by (simp add: splitMessage_def MAX_MESSAGE_LENGTH_def)
qed

text \<open>
  Claim C1 as stated fails: a text of 9503 code units with a line break after the first
  letter is split at the line break and then hard, so \<open>finalize\<close> posts two messages after
  the edit, where \<open>\<lceil>(len - limit) / limit\<rceil>\<close> is one.
\<close>

theorem finalize_post_count_counterexample:
  "finalize gateway_ok sm0 (js ''a\<newline>'' @ replicate 9500 0x62 @ js ''c'') [] =
     Some (None, sm0\<lparr>finalized := True, spinnerTimer := False\<rparr>,
           [PatchMessage 1 (js ''a''),
            MessagesSend (js ''general'') (js ''help'') (replicate 9500 0x62),
            MessagesSend (js ''general'') (js ''help'') (js ''c'')])
   \<and> ceilDiv (length (js ''a\<newline>'' @ replicate 9500 0x62 @ js ''c'') - MAX_MESSAGE_LENGTH)
        MAX_MESSAGE_LENGTH = 1"
proof -
  have len: "length (js ''a\<newline>'' @ replicate 9500 0x62 @ js ''c'') = 9503"
    by (simp add: js_def)
  have id1: "sm_messageId sm0 = 1" "sm_channel sm0 = js ''general''" "sm_topic sm0 = js ''help''"
    by (simp_all add: sm0_def)
  have "finalize gateway_ok sm0 (js ''a\<newline>'' @ replicate 9500 0x62 @ js ''c'') [] =
     Some (None, sm0\<lparr>finalized := True, spinnerTimer := False\<rparr>,
           [PatchMessage 1 (js ''a''),
            MessagesSend (js ''general'') (js ''help'') (replicate 9500 0x62),
            MessagesSend (js ''general'') (js ''help'') (js ''c'')])"
    unfolding finalize_def Let_def split_example len
    by (simp add: MAX_MESSAGE_LENGTH_def sendChunks_ok [OF sendsSucceed_gateway_ok] id1
          del: sendChunks.simps)
  moreover have "ceilDiv (length (js ''a\<newline>'' @ replicate 9500 0x62 @ js ''c'') - MAX_MESSAGE_LENGTH)
        MAX_MESSAGE_LENGTH = 1"
    unfolding len by (simp add: ceilDiv_def MAX_MESSAGE_LENGTH_def)
  ultimately show ?thesis by (rule conjI)
qed

section \<open>Properties of the streaming composer\<close>

lemma sendChunks_extends: "\<exists>more. snd (sendChunks gw ch tp cs tr) = tr @ more"
proof (induction cs arbitrary: tr)
  case Nil
  then show ?case by simp
next
  case (Cons c cs)
  show ?case
  proof (cases "send_result gw (tr @ [MessagesSend ch tp c])")
    case (Inl e)
    then show ?thesis by (simp add: messages_send_def)
  next
    case (Inr i)
    from Cons [of "tr @ [MessagesSend ch tp c]"]
    obtain more where "snd (sendChunks gw ch tp cs (tr @ [MessagesSend ch tp c])) =
        (tr @ [MessagesSend ch tp c]) @ more" by blast
    with Inr show ?thesis by (simp add: messages_send_def)
  qed
qed

lemma finalize_writes:
  "\<exists>r p more. finalize gw sm content tr =
      Some (r, sm\<lparr>finalized := True, spinnerTimer := False\<rparr>, tr @ p # more) \<and> isPatch p"
proof (cases "length content \<le> MAX_MESSAGE_LENGTH")
  case True
  then show ?thesis by (simp add: finalize_def)
next
  case False
  from splitMessage_terminates [OF MAX_pos, of content]
  obtain chunks where sp: "splitMessage content MAX_MESSAGE_LENGTH = Some chunks" by blast
  let ?p = "case chunks of [] \<Rightarrow> PatchMessageUndefined (sm_messageId sm)
            | c0 # _ \<Rightarrow> PatchMessage (sm_messageId sm) c0"
  obtain r tr2 where sc: "sendChunks gw (sm_channel sm) (sm_topic sm) (drop 1 chunks) (tr @ [?p]) = (r, tr2)"
    by (cases "sendChunks gw (sm_channel sm) (sm_topic sm) (drop 1 chunks) (tr @ [?p])") blast
  from sendChunks_extends [of gw "sm_channel sm" "sm_topic sm" "drop 1 chunks" "tr @ [?p]"] sc
  obtain more where "tr2 = (tr @ [?p]) @ more" by auto
  then have "finalize gw sm content tr =
      Some (r, sm\<lparr>finalized := True, spinnerTimer := False\<rparr>, tr @ ?p # more)"
    using False sp sc by (simp add: finalize_def Let_def)
  moreover have "isPatch ?p" by (cases chunks) simp_all
  ultimately show ?thesis by blast
qed

lemma terminated_fixed:
  assumes "finalized sm" "\<not> spinnerTimer sm"
  shows "sm\<lparr>finalized := True, spinnerTimer := False\<rparr> = sm"
  using assms by simp

text \<open>
  Claim C2, as amended. On a composer on which \<open>finalize\<close> or \<open>cancel\<close> has been called,
  a further \<open>update\<close> makes no remote call and changes nothing, and neither does a
  pending flush or the spinner. \<open>finalize\<close> and \<open>cancel\<close> themselves do not read the flag:
  a repeated \<open>finalize\<close> writes again, starting with an edit of the message, and a
  \<open>cancel\<close> after \<open>finalize\<close> deletes the message.
\<close>

theorem terminated_composer:
  assumes "cancel sm1 tr1 = (sm, tr) \<or> finalize gw1 sm1 content1 tr1 = Some (r1, sm, tr)"
  shows "finalized sm
       \<and> update sm content tr' = (sm, tr')
       \<and> flush sm tr' = (sm, tr')
       \<and> spinnerTick sm elapsed tr' = tr'
       \<and> cancel sm tr' = (sm, tr' @ [DeleteMessage (sm_messageId sm)])
       \<and> (\<exists>r p more. finalize gw sm content tr' = Some (r, sm, tr' @ p # more) \<and> isPatch p)"
proof -
  have "sm = sm1\<lparr>finalized := True, spinnerTimer := False\<rparr>"
  proof -
    from assms consider "cancel sm1 tr1 = (sm, tr)" | "finalize gw1 sm1 content1 tr1 = Some (r1, sm, tr)"
      by blast
    then show ?thesis
    proof cases
      case 1
      then show ?thesis by (simp add: cancel_def)
    next
      case 2
      with finalize_writes [of gw1 sm1 content1 tr1] show ?thesis by auto
    qed
  qed
  then have fin: "finalized sm" and spin: "\<not> spinnerTimer sm" by simp_all
  have fixed: "sm\<lparr>finalized := True, spinnerTimer := False\<rparr> = sm"
    using fin spin by simp
  have "update sm content tr' = (sm, tr')" using fin by (simp add: update_def)
  moreover have "flush sm tr' = (sm, tr')" using fin by (simp add: flush_def)
  moreover have "spinnerTick sm elapsed tr' = tr'" using spin by (simp add: spinnerTick_def)
  moreover have "cancel sm tr' = (sm, tr' @ [DeleteMessage (sm_messageId sm)])"
    using fixed by (simp add: cancel_def)
  moreover have "\<exists>r p more. finalize gw sm content tr' = Some (r, sm, tr' @ p # more) \<and> isPatch p"
    using finalize_writes [of gw sm content tr'] fixed by simp
  ultimately show ?thesis using fin by blast
qed

text \<open>Claim C2, as amended, at the sample composer after \<open>cancel\<close>.\<close>

theorem terminated_composer_witness:
  "cancel sm0 [] = (sm0\<lparr>finalized := True, spinnerTimer := False\<rparr>, [DeleteMessage 1])
   \<and> update (sm0\<lparr>finalized := True, spinnerTimer := False\<rparr>) (js ''more text'') [DeleteMessage 1] =
       (sm0\<lparr>finalized := True, spinnerTimer := False\<rparr>, [DeleteMessage 1])
   \<and> cancel (sm0\<lparr>finalized := True, spinnerTimer := False\<rparr>) [DeleteMessage 1] =
       (sm0\<lparr>finalized := True, spinnerTimer := False\<rparr>, [DeleteMessage 1, DeleteMessage 1])"
proof -
  have c: "cancel sm0 [] = (sm0\<lparr>finalized := True, spinnerTimer := False\<rparr>, [DeleteMessage 1])"
    by (simp add: cancel_def sm0_def)
  have id1: "sm_messageId (sm0\<lparr>finalized := True, spinnerTimer := False\<rparr>) = 1"
    by (simp add: sm0_def)
  from terminated_composer [of sm0 "[]" "sm0\<lparr>finalized := True, spinnerTimer := False\<rparr>"
      "[DeleteMessage 1]" gateway_ok "[]" None "js ''more text''" "[DeleteMessage 1]" "[]" gateway_ok] c
  show ?thesis by (simp add: id1)
qed

text \<open>
  Claim C2 as stated fails: after a first \<open>finalize\<close>, a second one edits the message
  again, and \<open>cancel\<close> deletes it.
\<close>

theorem repeated_finalize_counterexample:
  "finalize gateway_ok sm0 (js ''answer'') [] =
     Some (None, sm0\<lparr>finalized := True, spinnerTimer := False\<rparr>, [PatchMessage 1 (js ''answer'')])
   \<and> finalize gateway_ok (sm0\<lparr>finalized := True, spinnerTimer := False\<rparr>) (js ''answer'')
        [PatchMessage 1 (js ''answer'')] =
     Some (None, sm0\<lparr>finalized := True, spinnerTimer := False\<rparr>,
           [PatchMessage 1 (js ''answer''), PatchMessage 1 (js ''answer'')])
   \<and> cancel (sm0\<lparr>finalized := True, spinnerTimer := False\<rparr>) [PatchMessage 1 (js ''answer'')] =
     (sm0\<lparr>finalized := True, spinnerTimer := False\<rparr>,
      [PatchMessage 1 (js ''answer''), DeleteMessage 1])"
  by (simp add: finalize_def cancel_def sm0_def js_def MAX_MESSAGE_LENGTH_def)

section \<open>Properties of the event loop\<close>

lemma catchBlock_extends:
  "\<exists>r more. catchBlock gw st (tr @ [c]) err = (r, tr @ c # more)"
proof (cases "includes_js (errorMsgOf err) (js ''BAD_EVENT_QUEUE_ID'')")
  case True
  then show ?thesis
    by (simp add: catchBlock_def Let_def registerQueue_def split: sum.splits prod.splits)
next
  case False
  then show ?thesis by (simp add: catchBlock_def)
qed

lemma iteration_starts_with_poll:
  "\<exists>r more. iteration gw services st tr =
     (r, tr @ EventsRetrieve (queueId st) (lastEventId st) # more)"
proof -
  let ?tr1 = "tr @ [EventsRetrieve (queueId st) (lastEventId st)]"
  have disp: "\<exists>st' more. dispatchEvent services (s, ?tr1 @ acc) ev = (st', ?tr1 @ more)" for s acc ev
    by (cases ev) simp_all
  have fold: "\<exists>st' more. foldl (dispatchEvent services) (s, ?tr1 @ acc) evs = (st', ?tr1 @ more)" for s acc evs
  proof (induction evs arbitrary: s acc)
    case Nil
    then show ?case by simp
  next
    case (Cons ev evs)
    from disp [of s acc ev] obtain s' acc' where
      "dispatchEvent services (s, ?tr1 @ acc) ev = (s', ?tr1 @ acc')" by blast
    with Cons [of s' acc'] show ?case by simp
  qed
  show ?thesis
  proof (cases "events_result gw ?tr1")
    case (Inr response)
    show ?thesis
    proof (cases response)
      case (Events events)
      from fold [of st "[]" events] obtain st' more where
        "foldl (dispatchEvent services) (st, ?tr1) events = (st', ?tr1 @ more)" by auto
      with Inr Events show ?thesis by (simp add: iteration_def Let_def)
    next
      case (ErrorBody code msg)
      from catchBlock_extends [of gw st tr "EventsRetrieve (queueId st) (lastEventId st)"
          "Error (js ''response.events is not iterable'')"]
      show ?thesis using Inr ErrorBody by (simp add: iteration_def Let_def)
    qed
  next
    case (Inl err)
    from catchBlock_extends [of gw st tr "EventsRetrieve (queueId st) (lastEventId st)" err]
    show ?thesis using Inl by (simp add: iteration_def Let_def)
  qed
qed

text \<open>
  The \<open>catch\<close> block as it is written. An iteration whose poll throws an error whose
  message contains \<open>BAD_EVENT_QUEUE_ID\<close> makes, after the poll, exactly one call: the
  re-registration, and no back-off wait; the queue id and the cursor of the next
  iteration are the ones the registration returns (and the loop ends with the error if
  the registration throws). An iteration whose poll throws any other error makes, after
  the poll, exactly one call: the wait of 5000 ms, and leaves the queue id and the cursor
  as they were; the next iteration starts with the poll of the same queue id and cursor.
\<close>

lemma thrown_poll_error:
  assumes "events_result gw (tr @ [EventsRetrieve (queueId st) (lastEventId st)]) = Inl err"
  shows "(includes_js (errorMsgOf err) (js ''BAD_EVENT_QUEUE_ID'') \<longrightarrow>
            snd (iteration gw services st tr) =
              tr @ [EventsRetrieve (queueId st) (lastEventId st), QueuesRegister]
          \<and> fst (iteration gw services st tr) =
              (case register_result gw
                      (tr @ [EventsRetrieve (queueId st) (lastEventId st), QueuesRegister]) of
                 Inl e \<Rightarrow> Inl e
               | Inr (q, l) \<Rightarrow> Inr \<lparr>queueId = q, lastEventId = l\<rparr>))
       \<and> (\<not> includes_js (errorMsgOf err) (js ''BAD_EVENT_QUEUE_ID'') \<longrightarrow>
            iteration gw services st tr =
              (Inr st, tr @ [EventsRetrieve (queueId st) (lastEventId st), Sleep 5000])
          \<and> (\<exists>r more. iteration gw' services st (tr @ [EventsRetrieve (queueId st) (lastEventId st), Sleep 5000]) =
                (r, tr @ [EventsRetrieve (queueId st) (lastEventId st), Sleep 5000,
                          EventsRetrieve (queueId st) (lastEventId st)] @ more)))"
proof (intro conjI impI)
  assume bad: "includes_js (errorMsgOf err) (js ''BAD_EVENT_QUEUE_ID'')"
  show "snd (iteration gw services st tr) =
      tr @ [EventsRetrieve (queueId st) (lastEventId st), QueuesRegister]"
    using assms bad
    by (simp add: iteration_def catchBlock_def Let_def registerQueue_def split: sum.splits prod.splits)
  show "fst (iteration gw services st tr) =
      (case register_result gw
              (tr @ [EventsRetrieve (queueId st) (lastEventId st), QueuesRegister]) of
         Inl e \<Rightarrow> Inl e
       | Inr (q, l) \<Rightarrow> Inr \<lparr>queueId = q, lastEventId = l\<rparr>)"
    using assms bad
    by (simp add: iteration_def catchBlock_def Let_def registerQueue_def split: sum.splits prod.splits)
next
  assume other: "\<not> includes_js (errorMsgOf err) (js ''BAD_EVENT_QUEUE_ID'')"
  show "iteration gw services st tr =
      (Inr st, tr @ [EventsRetrieve (queueId st) (lastEventId st), Sleep 5000])"
    using assms other by (simp add: iteration_def catchBlock_def Let_def BACKOFF_MS_def)
  from iteration_starts_with_poll
    [of gw' services st "tr @ [EventsRetrieve (queueId st) (lastEventId st), Sleep 5000]"]
  show "\<exists>r more. iteration gw' services st (tr @ [EventsRetrieve (queueId st) (lastEventId st), Sleep 5000]) =
      (r, tr @ [EventsRetrieve (queueId st) (lastEventId st), Sleep 5000,
                EventsRetrieve (queueId st) (lastEventId st)] @ more)"
    by simp
qed

lemma includes_bad:
  "includes_js (js ''Bad event queue id: BAD_EVENT_QUEUE_ID'') (js ''BAD_EVENT_QUEUE_ID'')"
  by (simp add: js_def)

lemma includes_other:
  "\<not> includes_js (js ''connect ETIMEDOUT'') (js ''BAD_EVENT_QUEUE_ID'')"
  by (simp add: js_def)

lemma includes_not_iterable:
  "\<not> includes_js (js ''response.events is not iterable'') (js ''BAD_EVENT_QUEUE_ID'')"
  by (simp add: js_def)

text \<open>
  The \<open>catch\<close> block at a poll that throws with the queue-invalid code in its message,
  and at one that throws a time-out, from queue \<open>q1\<close> and cursor 41.
\<close>

lemma thrown_poll_error_example:
  "iteration (queue_failing (Error (js ''Bad event queue id: BAD_EVENT_QUEUE_ID''))) ([] :: unit Service list) st0 [] =
       (Inr \<lparr>queueId = js ''q2'', lastEventId = - 1\<rparr>,
        [EventsRetrieve (js ''q1'') 41, QueuesRegister])
   \<and> iteration (queue_failing (Error (js ''connect ETIMEDOUT''))) ([] :: unit Service list) st0 [] =
       (Inr st0, [EventsRetrieve (js ''q1'') 41, Sleep 5000])"
proof -
  let ?bad = "Error (js ''Bad event queue id: BAD_EVENT_QUEUE_ID'')"
  let ?other = "Error (js ''connect ETIMEDOUT'')"
  have h1: "events_result (queue_failing ?bad) ([] @ [EventsRetrieve (queueId st0) (lastEventId st0)]) = Inl ?bad"
    by (simp add: queue_failing_def)
  have h2: "events_result (queue_failing ?other) ([] @ [EventsRetrieve (queueId st0) (lastEventId st0)]) = Inl ?other"
    by (simp add: queue_failing_def)
  have i1: "includes_js (errorMsgOf ?bad) (js ''BAD_EVENT_QUEUE_ID'')"
    using includes_bad by simp
  have i2: "\<not> includes_js (errorMsgOf ?other) (js ''BAD_EVENT_QUEUE_ID'')"
    using includes_other by simp
  have st: "queueId st0 = js ''q1''" "lastEventId st0 = 41" by (simp_all add: st0_def)
  have reg: "register_result (queue_failing ?bad) h = Inr (js ''q2'', - 1)" for h
    by (simp add: queue_failing_def)
  from thrown_poll_error [OF h1, where services = "[] :: unit Service list" and gw' = "queue_failing ?bad"] i1
  have "snd (iteration (queue_failing ?bad) ([] :: unit Service list) st0 []) = [EventsRetrieve (js ''q1'') 41, QueuesRegister]"
    and "fst (iteration (queue_failing ?bad) ([] :: unit Service list) st0 []) = Inr \<lparr>queueId = js ''q2'', lastEventId = - 1\<rparr>"
    by (simp_all add: st reg)
  then have a: "iteration (queue_failing ?bad) ([] :: unit Service list) st0 [] =
       (Inr \<lparr>queueId = js ''q2'', lastEventId = - 1\<rparr>, [EventsRetrieve (js ''q1'') 41, QueuesRegister])"
    by (simp only: prod_eq_iff fst_conv snd_conv)
  from thrown_poll_error [OF h2, where services = "[] :: unit Service list" and gw' = "queue_failing ?other"] i2
  have b: "iteration (queue_failing ?other) ([] :: unit Service list) st0 [] = (Inr st0, [EventsRetrieve (js ''q1'') 41, Sleep 5000])"
    by (simp add: st)
  from a b show ?thesis by (rule conjI)
qed

lemma iteration_expired:
  "iteration queue_expired services st tr =
     (Inr st, tr @ [EventsRetrieve (queueId st) (lastEventId st), Sleep 5000])"
  using includes_not_iterable
  by (simp add: iteration_def catchBlock_def queue_expired_def Let_def BACKOFF_MS_def)

lemma iterations_expired:
  "iterations n queue_expired services st tr =
     (Inr st, tr @ concat (replicate n [EventsRetrieve (queueId st) (lastEventId st), Sleep 5000]))"
proof (induction n arbitrary: tr)
  case 0
  show ?case by simp
next
  case (Suc n)
  show ?case by (simp add: iteration_expired Suc del: iterations.simps(2))
      (simp add: iteration_expired Suc)
qed

lemma no_register_in_polls:
  "filter isRegister (concat (replicate n [EventsRetrieve q l, Sleep ms])) = []"
  by (induction n) simp_all

text \<open>
  Claim C3, at an expired queue as the client reports it: the poll resolves with the
  server's error body, whose code is \<open>BAD_EVENT_QUEUE_ID\<close> and which has no events. The
  iteration then makes, after the poll, one call: the wait of 5000 ms, and keeps the
  queue id and the cursor; so do any number of iterations, none of which registers a
  queue; and the loop started on that gateway registers once, at its start, and then
  polls that queue and waits, again and again. The re-registration that the \<open>catch\<close>
  block holds is not reached.
\<close>

theorem expired_queue_polled_again:
  "iteration queue_expired services st tr =
     (Inr st, tr @ [EventsRetrieve (queueId st) (lastEventId st), Sleep 5000])
   \<and> iterations n queue_expired services st tr =
     (Inr st, tr @ concat (replicate n [EventsRetrieve (queueId st) (lastEventId st), Sleep 5000]))
   \<and> filter isRegister (snd (iterations n queue_expired services st [])) = []
   \<and> eventLoop 2 queue_expired services =
     (Inr \<lparr>queueId = js ''q2'', lastEventId = - 1\<rparr>,
      [QueuesRegister, EventsRetrieve (js ''q2'') (- 1), Sleep 5000,
       EventsRetrieve (js ''q2'') (- 1), Sleep 5000])"
proof (intro conjI)
  show "iteration queue_expired services st tr =
     (Inr st, tr @ [EventsRetrieve (queueId st) (lastEventId st), Sleep 5000])"
    by (rule iteration_expired)
  show "iterations n queue_expired services st tr =
     (Inr st, tr @ concat (replicate n [EventsRetrieve (queueId st) (lastEventId st), Sleep 5000]))"
    by (rule iterations_expired)
  show "filter isRegister (snd (iterations n queue_expired services st [])) = []"
    by (simp add: iterations_expired no_register_in_polls del: iterations.simps)
  have reg: "registerQueue queue_expired [] =
      (Inr \<lparr>queueId = js ''q2'', lastEventId = - 1\<rparr>, [QueuesRegister])"
    by (simp add: registerQueue_def queue_expired_def)
  have two: "concat (replicate 2 [a, b]) = [a, b, a, b]" for a b :: loop_call
    by (simp add: numeral_2_eq_2)
  show "eventLoop 2 queue_expired services =
     (Inr \<lparr>queueId = js ''q2'', lastEventId = - 1\<rparr>,
      [QueuesRegister, EventsRetrieve (js ''q2'') (- 1), Sleep 5000,
       EventsRetrieve (js ''q2'') (- 1), Sleep 5000])"
    by (simp add: eventLoop_def reg iterations_expired two del: iterations.simps)
qed

section \<open>Properties of the dispatch chain\<close>

lemma runServices_append:
  "runServices (pre @ post) msg ctx w =
     (case runServices pre msg ctx w of
        (True, called, w') \<Rightarrow> (True, called, w')
      | (False, called, w') \<Rightarrow>
          (case runServices post msg ctx w' of
             (claimed, called', w'') \<Rightarrow> (claimed, called @ called', w'')))"
proof (induction pre arbitrary: w)
  case Nil
  then show ?case by (simp split: prod.splits)
next
  case (Cons svc pre)
  show ?case
  proof (cases "onMessage svc")
    case None
    then show ?thesis by (simp add: Cons)
  next
    case (Some h)
    obtain res w1 where h: "h msg ctx w = (res, w1)" by (cases "h msg ctx w")
    show ?thesis
    proof (cases "res = Inr True")
      case True
      with Some h show ?thesis by simp
    next
      case False
      then have step: "runServices (svc # xs) msg ctx w =
          (case runServices xs msg ctx w1 of (claimed, called, w'') \<Rightarrow> (claimed, svc_name svc # called, w''))" for xs
        using Some h by (cases res) (auto split: prod.splits)
      show ?thesis
        unfolding append_Cons step Cons
        by (auto split: prod.splits bool.splits)
    qed
  qed
qed

lemma runServices_called:
  "\<exists>k. fst (snd (runServices services msg ctx w)) = map svc_name (take k (handlers services))"
proof (induction services arbitrary: w)
  case Nil
  then show ?case by (simp add: handlers_def)
next
  case (Cons svc rest)
  show ?case
  proof (cases "onMessage svc")
    case None
    with Cons [of w] show ?thesis by (simp add: handlers_def)
  next
    case (Some h)
    obtain res w1 where h: "h msg ctx w = (res, w1)" by (cases "h msg ctx w")
    from Cons [of w1] obtain k where
      k: "fst (snd (runServices rest msg ctx w1)) = map svc_name (take k (handlers rest))" by blast
    have hs: "handlers (svc # rest) = svc # handlers rest"
      using Some by (simp add: handlers_def)
    show ?thesis
    proof (cases "res = Inr True")
      case True
      with Some h have "fst (snd (runServices (svc # rest) msg ctx w)) = [svc_name svc]" by simp
      then show ?thesis unfolding hs by (intro exI [of _ 1]) simp
    next
      case False
      then have "fst (snd (runServices (svc # rest) msg ctx w)) =
          svc_name svc # fst (snd (runServices rest msg ctx w1))"
        using Some h by (cases res) (auto split: prod.splits)
      with k show ?thesis unfolding hs by (intro exI [of _ "Suc k"]) simp
    qed
  qed
qed

lemma sendMessage_returns: "\<exists>r more. sendMessage gw ch tp content tr = Some (r, tr @ more)"
proof -
  from splitMessage_terminates [OF MAX_pos, of content]
  obtain chunks where sp: "splitMessage content MAX_MESSAGE_LENGTH = Some chunks" by blast
  from sendChunks_extends [of gw ch tp chunks tr]
  obtain more where "snd (sendChunks gw ch tp chunks tr) = tr @ more" by blast
  then have "sendChunks gw ch tp chunks tr = (fst (sendChunks gw ch tp chunks tr), tr @ more)"
    by (simp add: prod_eq_iff)
  with sp show ?thesis by (simp add: sendMessage_def) blast
qed

lemma update_extends: "\<exists>s' more. update s text t = (s', t @ more)"
  by (auto simp: update_def flush_def Let_def split: option.splits)

lemma updates_extend:
  "\<exists>s' more. foldl (\<lambda>(s, t) text. update s text t) (s, t) texts = (s', t @ more)"
proof (induction texts arbitrary: s t)
  case Nil
  then show ?case by simp
next
  case (Cons x xs)
  from update_extends [of s x t] obtain s1 m1 where u: "update s x t = (s1, t @ m1)" by blast
  from Cons [of s1 "t @ m1"] obtain s2 m2 where
    "foldl (\<lambda>(s, t) text. update s text t) (s1, t @ m1) xs = (s2, (t @ m1) @ m2)" by blast
  with u show ?case by simp
qed

lemma finalize_returns: "\<exists>r s' more. finalize gw sm content tr = Some (r, s', tr @ more)"
  using finalize_writes [of gw sm content tr] by blast

lemma answer_try_returns:
  "\<exists>r s' more. answer_try htmlToText ctx msg streaming tr = Some (r, s', tr @ more)"
proof (cases "trim (htmlToText (msg_content msg)) = []")
  case True
  let ?tr1 = "tr @ [DeleteMessage (sm_messageId streaming)]"
  from sendMessage_returns [of "client ctx" "display_recipient msg" "msg_subject msg"
      "js ''It looks like you mentioned me but didn't include a question. How can I help?''" ?tr1]
  obtain r more where "sendMessage (client ctx) (display_recipient msg) (msg_subject msg)
      (js ''It looks like you mentioned me but didn't include a question. How can I help?'') ?tr1 =
      Some (r, ?tr1 @ more)" by blast
  with True show ?thesis by (simp add: answer_try_def cancel_def Let_def)
next
  case False
  let ?ch = "display_recipient msg" and ?tp = "msg_subject msg"
  let ?tr1 = "tr @ [MessagesRetrieve ?ch ?tp (js ''newest'') (contextMessages (config ctx)) 0]"
  show ?thesis
  proof (cases "retrieve_result (client ctx) ?tr1")
    case (Inl e)
    with False show ?thesis by (simp add: answer_try_def fetchTopicMessages_def Let_def)
  next
    case (Inr recent)
    let ?cx = "join (js ''\<newline>'')
        (map (\<lambda>m. sender_full_name m @ js '': '' @ htmlToText (msg_content m))
           (filter (\<lambda>m. msg_id m \<noteq> msg_id msg) recent))"
    let ?tr2 = "?tr1 @ [AskClaude (htmlToText (msg_content msg)) ?cx]"
    obtain texts res where ask: "ask_result (client ctx) ?tr2 = (texts, res)"
      by (cases "ask_result (client ctx) ?tr2")
    from updates_extend [of streaming ?tr2 texts] obtain s3 m3 where
      ups: "foldl (\<lambda>(s, t) text. update s text t) (streaming, ?tr2) texts = (s3, ?tr2 @ m3)" by blast
    show ?thesis
    proof (cases res)
      case (Inl e)
      with False Inr ask ups show ?thesis
        by (simp add: answer_try_def fetchTopicMessages_def Let_def)
    next
      case (Inr answer)
      from finalize_returns [of "client ctx" s3 answer "?tr2 @ m3"] obtain r s' more where
        "finalize (client ctx) s3 answer (?tr2 @ m3) = Some (r, s', (?tr2 @ m3) @ more)" by blast
      with False \<open>retrieve_result (client ctx) ?tr1 = Inr recent\<close> ask ups Inr show ?thesis
        by (simp add: answer_try_def fetchTopicMessages_def Let_def)
    qed
  qed
qed

lemma answer_returns:
  "\<exists>r more. answer htmlToText ctx msg tr =
      Some (r, tr @ MessagesSend (display_recipient msg) (msg_subject msg) (js '':loading: Thinking...'') # more)"
proof -
  let ?ch = "display_recipient msg" and ?tp = "msg_subject msg"
  let ?tr1 = "tr @ [MessagesSend ?ch ?tp (js '':loading: Thinking...'')]"
  show ?thesis
  proof (cases "send_result (client ctx) ?tr1")
    case (Inl e)
    then show ?thesis by (simp add: answer_def startStreamingMessage_def messages_send_def Let_def)
  next
    case (Inr mid)
    let ?s = "\<lparr>sm_messageId = mid, sm_channel = ?ch, sm_topic = ?tp, finalized = False,
                textStarted = False, spinnerTimer = True, lastFlushedWordCount = 0,
                latestContent = None\<rparr>"
    have start: "startStreamingMessage (client ctx) ?ch ?tp tr = (Inr ?s, ?tr1)"
      using Inr by (simp add: startStreamingMessage_def messages_send_def Let_def)
    from answer_try_returns [of htmlToText ctx msg ?s ?tr1] obtain r s2 m2 where
      t: "answer_try htmlToText ctx msg ?s ?tr1 = Some (r, s2, ?tr1 @ m2)" by blast
    show ?thesis
    proof (cases r)
      case None
      with start t show ?thesis by (simp add: answer_def Let_def)
    next
      case (Some err)
      let ?tr3 = "(?tr1 @ m2) @ [DeleteMessage (sm_messageId s2)]"
      let ?m = "js ''Sorry, I encountered an error processing your request: '' @
            (case err of Error m \<Rightarrow> m | Thrown _ \<Rightarrow> js ''An unknown error occurred'')"
      from sendMessage_returns [of "client ctx" ?ch ?tp ?m ?tr3] obtain r4 m4 where
        "sendMessage (client ctx) ?ch ?tp ?m ?tr3 = Some (r4, ?tr3 @ m4)" by blast
      with start t Some show ?thesis by (simp add: answer_def Let_def cancel_def)
    qed
  qed
qed

lemma answer_asks:
  assumes sent: "send_result (client ctx)
           (tr @ [MessagesSend (display_recipient msg) (msg_subject msg) (js '':loading: Thinking...'')]) = Inr mid"
    and question: "trim (htmlToText (msg_content msg)) \<noteq> []"
    and fetched: "retrieve_result (client ctx)
           (tr @ [MessagesSend (display_recipient msg) (msg_subject msg) (js '':loading: Thinking...''),
                  MessagesRetrieve (display_recipient msg) (msg_subject msg) (js ''newest'')
                    (contextMessages (config ctx)) 0]) = Inr recent"
  shows "\<exists>r context more. answer htmlToText ctx msg tr =
      Some (r, tr @ [MessagesSend (display_recipient msg) (msg_subject msg) (js '':loading: Thinking...''),
                     MessagesRetrieve (display_recipient msg) (msg_subject msg) (js ''newest'')
                       (contextMessages (config ctx)) 0,
                     AskClaude (htmlToText (msg_content msg)) context] @ more)"
proof -
  let ?ch = "display_recipient msg" and ?tp = "msg_subject msg"
  let ?tr1 = "tr @ [MessagesSend ?ch ?tp (js '':loading: Thinking...'')]"
  let ?tr2 = "?tr1 @ [MessagesRetrieve ?ch ?tp (js ''newest'') (contextMessages (config ctx)) 0]"
  let ?cx = "join (js ''\<newline>'')
        (map (\<lambda>m. sender_full_name m @ js '': '' @ htmlToText (msg_content m))
           (filter (\<lambda>m. msg_id m \<noteq> msg_id msg) recent))"
  let ?tr3 = "?tr2 @ [AskClaude (htmlToText (msg_content msg)) ?cx]"
  let ?s = "\<lparr>sm_messageId = mid, sm_channel = ?ch, sm_topic = ?tp, finalized = False,
              textStarted = False, spinnerTimer = True, lastFlushedWordCount = 0,
              latestContent = None\<rparr>"
  have start: "startStreamingMessage (client ctx) ?ch ?tp tr = (Inr ?s, ?tr1)"
    using sent by (simp add: startStreamingMessage_def messages_send_def Let_def)
  obtain texts res where ask: "ask_result (client ctx) ?tr3 = (texts, res)"
    by (cases "ask_result (client ctx) ?tr3")
  from updates_extend [of ?s ?tr3 texts] obtain s3 m3 where
    ups: "foldl (\<lambda>(s, t) text. update s text t) (?s, ?tr3) texts = (s3, ?tr3 @ m3)" by blast
  have "\<exists>r s' more. answer_try htmlToText ctx msg ?s ?tr1 = Some (r, s', ?tr3 @ more)"
  proof (cases res)
    case (Inl e)
    with question fetched ask ups show ?thesis
      by (simp add: answer_try_def fetchTopicMessages_def Let_def)
  next
    case (Inr answer)
    from finalize_returns [of "client ctx" s3 answer "?tr3 @ m3"] obtain r s' more where
      "finalize (client ctx) s3 answer (?tr3 @ m3) = Some (r, s', (?tr3 @ m3) @ more)" by blast
    with question fetched ask ups Inr show ?thesis
      by (simp add: answer_try_def fetchTopicMessages_def Let_def)
  qed
  then obtain r s2 m2 where t: "answer_try htmlToText ctx msg ?s ?tr1 = Some (r, s2, ?tr3 @ m2)"
    by blast
  show ?thesis
  proof (cases r)
    case None
    with start t have "answer htmlToText ctx msg tr = Some (None, ?tr3 @ m2)"
      by (simp add: answer_def Let_def)
    then show ?thesis by (intro exI [of _ None] exI [of _ ?cx] exI [of _ m2]) simp
  next
    case (Some err)
    let ?tr4 = "(?tr3 @ m2) @ [DeleteMessage (sm_messageId s2)]"
    let ?m = "js ''Sorry, I encountered an error processing your request: '' @
          (case err of Error m \<Rightarrow> m | Thrown _ \<Rightarrow> js ''An unknown error occurred'')"
    from sendMessage_returns [of "client ctx" ?ch ?tp ?m ?tr4] obtain r4 m4 where
      "sendMessage (client ctx) ?ch ?tp ?m ?tr4 = Some (r4, ?tr4 @ m4)" by blast
    with start t Some have "answer htmlToText ctx msg tr =
        Some (None, ?tr3 @ (m2 @ [DeleteMessage (sm_messageId s2)] @ m4))"
      by (simp add: answer_def Let_def cancel_def)
    then show ?thesis
      by (intro exI [of _ None] exI [of _ ?cx]
          exI [of _ "m2 @ [DeleteMessage (sm_messageId s2)] @ m4"]) simp
  qed
qed

text \<open>
  Claim C7. A message that is not a channel message, or is the bot's own, or is not flagged
  as a mention, is dropped before the chain: \<open>handleMessage\<close> returns with no handler
  called and the world as it was, so with no call of the gateway or of the engine.
\<close>

theorem ineligible_message_ignored:
  assumes "msg_type msg \<noteq> Stream \<or> sender_email msg = botEmail ctx \<or> js ''mentioned'' \<notin> set flags"
  shows "handleMessage htmlToText msg flags services ctx w = Some (None, [], w)"
  using assms by (auto simp: handleMessage_def)

text \<open>
  Claim C7, at a direct message with a mention, at a mention written by the bot, and at a
  channel message that is no mention, with a service that would claim any message.
\<close>

theorem ineligible_message_ignored_witness:
  "handleMessage (\<lambda>h. h) (msg0\<lparr>msg_type := Private\<rparr>) [js ''mentioned''] [svc_claims] ctx0 w0 =
     Some (None, [], w0)
   \<and> handleMessage (\<lambda>h. h) (msg0\<lparr>sender_email := js ''bot@example.com''\<rparr>) [js ''mentioned'']
        [svc_claims] ctx0 w0 = Some (None, [], w0)
   \<and> handleMessage (\<lambda>h. h) msg0 [js ''read''] [svc_claims] ctx0 w0 = Some (None, [], w0)"
proof -
  have a: "msg_type (msg0\<lparr>msg_type := Private\<rparr>) \<noteq> Stream" by simp
  have b: "sender_email (msg0\<lparr>sender_email := js ''bot@example.com''\<rparr>) = botEmail ctx0"
    by (simp add: ctx0_def)
  have c: "js ''mentioned'' \<notin> set [js ''read'']" by (simp add: js_def)
  show ?thesis
    using ineligible_message_ignored [of "msg0\<lparr>msg_type := Private\<rparr>" ctx0 "[js ''mentioned'']"
        "\<lambda>h. h" "[svc_claims]" w0]
      ineligible_message_ignored [of "msg0\<lparr>sender_email := js ''bot@example.com''\<rparr>" ctx0
        "[js ''mentioned'']" "\<lambda>h. h" "[svc_claims]" w0]
      ineligible_message_ignored [of msg0 ctx0 "[js ''read'']" "\<lambda>h. h" "[svc_claims]" w0]
      a b c
    by blast
qed

text \<open>
  Claim C6. For a channel message of another user that is flagged as a mention: the
  handlers called are an initial part of the services that have an \<open>onMessage\<close>, in
  registration order. When the services before one of them did not claim the message and
  that one returns true, \<open>handleMessage\<close> returns with the world that handler left: no
  later handler is called and the answering path is not entered. When that one throws
  instead, the chain goes on with the services after it. When no handler returns true,
  the answering path is entered: it posts the composer's placeholder, and, when that post
  succeeded, the question is not blank and the topic's messages were fetched, it calls the
  answering engine.
\<close>

theorem dispatch_chain:
  assumes "msg_type msg = Stream" and "sender_email msg \<noteq> botEmail ctx"
    and "js ''mentioned'' \<in> set flags"
    and "runServices services msg ctx w = (claimed, called, w1)"
  shows "(\<exists>k. called = map svc_name (take k (handlers services)))
       \<and> (claimed \<longrightarrow> handleMessage htmlToText msg flags services ctx w = Some (None, called, w1))
       \<and> (\<forall>pre svc post h called0 w2 w3.
             services = pre @ svc # post \<and> runServices pre msg ctx w = (False, called0, w2)
             \<and> onMessage svc = Some h \<and> h msg ctx w2 = (Inr True, w3) \<longrightarrow>
               handleMessage htmlToText msg flags services ctx w =
                 Some (None, called0 @ [svc_name svc], w3))
       \<and> (\<forall>pre svc post h called0 w2 err w3.
             services = pre @ svc # post \<and> runServices pre msg ctx w = (False, called0, w2)
             \<and> onMessage svc = Some h \<and> h msg ctx w2 = (Inl err, w3) \<longrightarrow>
               runServices services msg ctx w =
                 (case runServices post msg ctx w3 of
                    (c, called', w4) \<Rightarrow> (c, called0 @ svc_name svc # called', w4)))
       \<and> (\<not> claimed \<longrightarrow>
             (\<exists>r more. handleMessage htmlToText msg flags services ctx w =
                Some (r, called, w1\<lparr>trace := trace w1 @
                  MessagesSend (display_recipient msg) (msg_subject msg) (js '':loading: Thinking...'')
                  # more\<rparr>)))
       \<and> (\<not> claimed \<longrightarrow>
             (\<forall>mid recent.
                send_result (client ctx)
                  (trace w1 @ [MessagesSend (display_recipient msg) (msg_subject msg)
                                 (js '':loading: Thinking...'')]) = Inr mid
              \<and> trim (htmlToText (msg_content msg)) \<noteq> []
              \<and> retrieve_result (client ctx)
                  (trace w1 @ [MessagesSend (display_recipient msg) (msg_subject msg)
                                 (js '':loading: Thinking...''),
                               MessagesRetrieve (display_recipient msg) (msg_subject msg)
                                 (js ''newest'') (contextMessages (config ctx)) 0]) = Inr recent \<longrightarrow>
                (\<exists>r context more. handleMessage htmlToText msg flags services ctx w =
                   Some (r, called, w1\<lparr>trace := trace w1 @
                     [MessagesSend (display_recipient msg) (msg_subject msg) (js '':loading: Thinking...''),
                      MessagesRetrieve (display_recipient msg) (msg_subject msg)
                        (js ''newest'') (contextMessages (config ctx)) 0,
                      AskClaude (htmlToText (msg_content msg)) context] @ more\<rparr>))))"
proof -
  note elig = assms(1-3)
  note run = assms(4)
  have order: "\<exists>k. called = map svc_name (take k (handlers services))"
    using runServices_called [of services msg ctx w] run by simp
  have claim: "handleMessage htmlToText msg flags services ctx w = Some (None, called, w1)" if claimed
    using that elig run by (simp add: handleMessage_def)
  have first: "handleMessage htmlToText msg flags services ctx w =
      Some (None, called0 @ [svc_name svc], w3)"
    if "services = pre @ svc # post" "runServices pre msg ctx w = (False, called0, w2)"
      "onMessage svc = Some h" "h msg ctx w2 = (Inr True, w3)"
    for pre svc post h called0 w2 w3
  proof -
    from that have "runServices services msg ctx w = (True, called0 @ [svc_name svc], w3)"
      by (simp add: runServices_append)
    with elig show ?thesis by (simp add: handleMessage_def)
  qed
  have throws: "runServices services msg ctx w =
      (case runServices post msg ctx w3 of (c, called', w4) \<Rightarrow> (c, called0 @ svc_name svc # called', w4))"
    if "services = pre @ svc # post" "runServices pre msg ctx w = (False, called0, w2)"
      "onMessage svc = Some h" "h msg ctx w2 = (Inl err, w3)"
    for pre svc post h called0 w2 err w3
    using that by (simp add: runServices_append split: prod.splits)
  have fall: "\<exists>r more. handleMessage htmlToText msg flags services ctx w =
      Some (r, called, w1\<lparr>trace := trace w1 @
        MessagesSend (display_recipient msg) (msg_subject msg) (js '':loading: Thinking...'') # more\<rparr>)"
    if "\<not> claimed"
  proof -
    from answer_returns [of htmlToText ctx msg "trace w1"] obtain r more where
      "answer htmlToText ctx msg (trace w1) =
        Some (r, trace w1 @ MessagesSend (display_recipient msg) (msg_subject msg)
                (js '':loading: Thinking...'') # more)" by blast
    with that elig run have "handleMessage htmlToText msg flags services ctx w =
      Some (r, called, w1\<lparr>trace := trace w1 @
        MessagesSend (display_recipient msg) (msg_subject msg) (js '':loading: Thinking...'') # more\<rparr>)"
      by (simp add: handleMessage_def)
    then show ?thesis by blast
  qed
  have asks: "\<exists>r context more. handleMessage htmlToText msg flags services ctx w =
       Some (r, called, w1\<lparr>trace := trace w1 @
         [MessagesSend (display_recipient msg) (msg_subject msg) (js '':loading: Thinking...''),
          MessagesRetrieve (display_recipient msg) (msg_subject msg)
            (js ''newest'') (contextMessages (config ctx)) 0,
          AskClaude (htmlToText (msg_content msg)) context] @ more\<rparr>)"
    if "\<not> claimed"
      "send_result (client ctx)
        (trace w1 @ [MessagesSend (display_recipient msg) (msg_subject msg)
                       (js '':loading: Thinking...'')]) = Inr mid"
      "trim (htmlToText (msg_content msg)) \<noteq> []"
      "retrieve_result (client ctx)
        (trace w1 @ [MessagesSend (display_recipient msg) (msg_subject msg)
                       (js '':loading: Thinking...''),
                     MessagesRetrieve (display_recipient msg) (msg_subject msg)
                       (js ''newest'') (contextMessages (config ctx)) 0]) = Inr recent"
    for mid recent
  proof -
    from answer_asks [of ctx "trace w1" msg mid htmlToText recent] that(2-4)
    obtain r cx more where
      "answer htmlToText ctx msg (trace w1) =
        Some (r, trace w1 @
         [MessagesSend (display_recipient msg) (msg_subject msg) (js '':loading: Thinking...''),
          MessagesRetrieve (display_recipient msg) (msg_subject msg)
            (js ''newest'') (contextMessages (config ctx)) 0,
          AskClaude (htmlToText (msg_content msg)) cx] @ more)" by blast
    with that(1) elig run have "handleMessage htmlToText msg flags services ctx w =
       Some (r, called, w1\<lparr>trace := trace w1 @
         [MessagesSend (display_recipient msg) (msg_subject msg) (js '':loading: Thinking...''),
          MessagesRetrieve (display_recipient msg) (msg_subject msg)
            (js ''newest'') (contextMessages (config ctx)) 0,
          AskClaude (htmlToText (msg_content msg)) cx] @ more\<rparr>)"
      by (simp add: handleMessage_def)
    then show ?thesis by blast
  qed
  show ?thesis
    using order claim first throws fall asks by blast
qed

text \<open>
  Claim C6, at three services of which the first throws and the second claims the
  message, and at the throwing service alone, where the message falls through.
\<close>

theorem dispatch_chain_witness:
  "msg_type msg0 = Stream \<and> sender_email msg0 \<noteq> botEmail ctx0
   \<and> js ''mentioned'' \<in> set [js ''mentioned'']
   \<and> runServices [svc_throws, svc_claims, svc_also] msg0 ctx0 w0 =
        (True, [js ''broken'', js ''tasks''],
         w0\<lparr>trace := [MessagesSend (js ''general'') (js ''help'') (js ''done'')]\<rparr>)
   \<and> handleMessage (\<lambda>h. h) msg0 [js ''mentioned''] [svc_throws, svc_claims, svc_also] ctx0 w0 =
        Some (None, [js ''broken'', js ''tasks''],
              w0\<lparr>trace := [MessagesSend (js ''general'') (js ''help'') (js ''done'')]\<rparr>)
   \<and> runServices [svc_throws] msg0 ctx0 w0 = (False, [js ''broken''], w0)
   \<and> (\<exists>r cx more. handleMessage (\<lambda>h. h) msg0 [js ''mentioned''] [svc_throws] ctx0 w0 =
        Some (r, [js ''broken''],
              w0\<lparr>trace := [MessagesSend (js ''general'') (js ''help'') (js '':loading: Thinking...''),
                             MessagesRetrieve (js ''general'') (js ''help'') (js ''newest'') 20 0,
                             AskClaude (js ''task'') cx] @ more\<rparr>))"
proof -
  have e1: "msg_type msg0 = Stream" by (simp add: msg0_def)
  have e2: "sender_email msg0 \<noteq> botEmail ctx0" by (simp add: msg0_def ctx0_def js_def)
  have e3: "js ''mentioned'' \<in> set [js ''mentioned'']" by simp
  have m: "display_recipient msg0 = js ''general''" "msg_subject msg0 = js ''help''"
    "msg_content msg0 = js ''task''"
    by (simp_all add: msg0_def)
  have r1: "runServices [svc_throws, svc_claims, svc_also] msg0 ctx0 w0 =
        (True, [js ''broken'', js ''tasks''],
         w0\<lparr>trace := [MessagesSend (js ''general'') (js ''help'') (js ''done'')]\<rparr>)"
    by (simp add: svc_throws_def svc_claims_def svc_also_def m w0_def)
  have r2: "runServices [svc_throws] msg0 ctx0 w0 = (False, [js ''broken''], w0)"
    by (simp add: svc_throws_def)
  have q: "trim (msg_content msg0) \<noteq> []"
    by (simp add: m trim_def trimEnd_def trimStart_def js_def isWhiteSpace_def)
  have s: "send_result (client ctx0) h = Inr (length h)" for h
    by (simp add: ctx0_def gateway_ok_def)
  have f: "retrieve_result (client ctx0) h = Inr []" for h
    by (simp add: ctx0_def gateway_ok_def)
  have cm: "contextMessages (config ctx0) = 20" by (simp add: ctx0_def)
  have tr0: "trace w0 = []" by (simp add: w0_def)
  from dispatch_chain [OF e1 e2 e3 r1, of "\<lambda>h. h"]
  have a: "handleMessage (\<lambda>h. h) msg0 [js ''mentioned''] [svc_throws, svc_claims, svc_also] ctx0 w0 =
        Some (None, [js ''broken'', js ''tasks''],
              w0\<lparr>trace := [MessagesSend (js ''general'') (js ''help'') (js ''done'')]\<rparr>)"
    by blast
  from dispatch_chain [OF e1 e2 e3 r2, of "\<lambda>h. h"]
  have "\<forall>mid recent.
                send_result (client ctx0)
                  (trace w0 @ [MessagesSend (display_recipient msg0) (msg_subject msg0)
                                 (js '':loading: Thinking...'')]) = Inr mid
              \<and> trim (msg_content msg0) \<noteq> []
              \<and> retrieve_result (client ctx0)
                  (trace w0 @ [MessagesSend (display_recipient msg0) (msg_subject msg0)
                                 (js '':loading: Thinking...''),
                               MessagesRetrieve (display_recipient msg0) (msg_subject msg0)
                                 (js ''newest'') (contextMessages (config ctx0)) 0]) = Inr recent \<longrightarrow>
                (\<exists>r cx more. handleMessage (\<lambda>h. h) msg0 [js ''mentioned''] [svc_throws] ctx0 w0 =
                   Some (r, [js ''broken''], w0\<lparr>trace := trace w0 @
                     [MessagesSend (display_recipient msg0) (msg_subject msg0) (js '':loading: Thinking...''),
                      MessagesRetrieve (display_recipient msg0) (msg_subject msg0)
                        (js ''newest'') (contextMessages (config ctx0)) 0,
                      AskClaude (msg_content msg0) cx] @ more\<rparr>))"
    by blast
  then have b: "\<exists>r cx more. handleMessage (\<lambda>h. h) msg0 [js ''mentioned''] [svc_throws] ctx0 w0 =
        Some (r, [js ''broken''],
              w0\<lparr>trace := [MessagesSend (js ''general'') (js ''help'') (js '':loading: Thinking...''),
                             MessagesRetrieve (js ''general'') (js ''help'') (js ''newest'') 20 0,
                             AskClaude (js ''task'') cx] @ more\<rparr>)"
    using q unfolding s f m cm tr0 by simp
  from e1 e2 e3 r1 a r2 b show ?thesis by blast
qed

section \<open>Properties of the tasks service\<close>

lemma find_map_same:
  assumes "\<And>x. P (f x) = P x"
  shows "find P (map f xs) = map_option f (find P xs)"
  using assms by (induction xs) simp_all

lemma find_Some_P: "find P xs = Some x \<Longrightarrow> P x"
  by (induction xs) (auto split: if_splits)

lemma getTaskByTaskMsgId_completeTask:
  assumes "getTaskByTaskMsgId db m = Some task"
  shows "getTaskByTaskMsgId (completeTask db (t_id task) who now) m =
     Some (task\<lparr>status := Done, completed_at := Some now, completed_by := Some who\<rparr>)"
proof -
  let ?f = "\<lambda>t. if t_id t = t_id task
               then t\<lparr>status := Done, completed_at := Some now, completed_by := Some who\<rparr> else t"
  have "find (\<lambda>t. task_msg_id t = Some m) (map ?f (tasks db)) =
      map_option ?f (find (\<lambda>t. task_msg_id t = Some m) (tasks db))"
    by (rule find_map_same) simp
  with assms show ?thesis by (simp add: getTaskByTaskMsgId_def completeTask_def)
qed

lemma getTaskByTaskMsgId_reopenTask:
  assumes "getTaskByTaskMsgId db m = Some task"
  shows "getTaskByTaskMsgId (reopenTask db (t_id task)) m =
     Some (task\<lparr>status := Open, completed_at := None, completed_by := None\<rparr>)"
proof -
  let ?f = "\<lambda>t. if t_id t = t_id task
               then t\<lparr>status := Open, completed_at := None, completed_by := None\<rparr> else t"
  have "find (\<lambda>t. task_msg_id t = Some m) (map ?f (tasks db)) =
      map_option ?f (find (\<lambda>t. task_msg_id t = Some m) (tasks db))"
    by (rule find_map_same) simp
  with assms show ?thesis by (simp add: getTaskByTaskMsgId_def reopenTask_def)
qed

lemma getAssignees_completeTask: "getAssignees (completeTask db i who now) j = getAssignees db j"
  by (simp add: getAssignees_def completeTask_def)

lemma getAssignees_reopenTask: "getAssignees (reopenTask db i) j = getAssignees db j"
  by (simp add: getAssignees_def reopenTask_def)

lemma completed_swap:
  "(t :: TaskRow)\<lparr>completed_by := b, completed_at := a\<rparr> = t\<lparr>completed_at := a, completed_by := b\<rparr>"
  by (cases t) simp

text \<open>One toggle: the done emoji of a user other than the bot on a task card.\<close>

lemma toggle_step:
  assumes user: "u \<noteq> botUserId ctx"
    and card: "getTaskByTaskMsgId db m = Some task" and m: "0 < m"
    and lookup: "userLookupsSucceed (client ctx)"
  shows "tasks_onReaction l (reaction o' u m (js ''check'')) ctx now db tr =
      (None,
       (if o' = Add then completeTask db (t_id task) (lookedUpName (client ctx) (tr @ [GetUser u])) now
        else reopenTask db (t_id task)),
       tr @ [GetUser u,
             PatchMessage m
               (renderTaskCard l
                  (if o' = Add
                   then task\<lparr>status := Done, completed_at := Some now,
                             completed_by := Some (lookedUpName (client ctx) (tr @ [GetUser u]))\<rparr>
                   else task\<lparr>status := Open, completed_at := None, completed_by := None\<rparr>)
                  (getAssignees db (t_id task)) (config ctx))])"
proof -
  from lookup obtain user where res: "get_user_result (client ctx) (tr @ [GetUser u]) = Inr user"
    unfolding userLookupsSucceed_def by blast
  have name: "lookedUpName (client ctx) (tr @ [GetUser u]) =
      (case user of Some n \<Rightarrow> n | None \<Rightarrow> js ''Unknown'')"
    using res by (simp add: lookedUpName_def split: option.splits)
  from card have tm: "task_msg_id task = Some m"
    unfolding getTaskByTaskMsgId_def by (rule find_Some_P)
  show ?thesis
    using user card m res tm unfolding name
    by (cases o')
      (simp_all add: tasks_onReaction_def toggleCompletion_def reaction_def Let_def
        syncTaskMessage_def getAssignees_completeTask getAssignees_reopenTask completed_swap)
qed

text \<open>
  Claim C5. On a task card (a message with an id above 0 that is the card of a task), the
  done emoji added, removed and added again by users other than the bot, with user
  lookups that return: the persisted task is done after the first event, with the time
  and the name looked up, open after the second, with both cleared, and done again after
  the third; and each event patches the card once, with the card rendered from the task
  as it then is.
\<close>

theorem completion_toggle:
  assumes users: "u1 \<noteq> botUserId ctx" "u2 \<noteq> botUserId ctx" "u3 \<noteq> botUserId ctx"
    and card: "getTaskByTaskMsgId db m = Some task" and m: "0 < m"
    and lookup: "userLookupsSucceed (client ctx)"
  shows "\<exists>db1 tr1 db2 tr2 db3 tr3 n1 n3.
      tasks_onReaction l (reaction Add u1 m (js ''check'')) ctx now1 db tr = (None, db1, tr1)
    \<and> getTaskByTaskMsgId db1 m =
        Some (task\<lparr>status := Done, completed_at := Some now1, completed_by := Some n1\<rparr>)
    \<and> tr1 = tr @ [GetUser u1, PatchMessage m (renderTaskCard l
          (task\<lparr>status := Done, completed_at := Some now1, completed_by := Some n1\<rparr>)
          (getAssignees db (t_id task)) (config ctx))]
    \<and> tasks_onReaction l (reaction Remove u2 m (js ''check'')) ctx now2 db1 tr1 = (None, db2, tr2)
    \<and> getTaskByTaskMsgId db2 m =
        Some (task\<lparr>status := Open, completed_at := None, completed_by := None\<rparr>)
    \<and> tr2 = tr1 @ [GetUser u2, PatchMessage m (renderTaskCard l
          (task\<lparr>status := Open, completed_at := None, completed_by := None\<rparr>)
          (getAssignees db (t_id task)) (config ctx))]
    \<and> tasks_onReaction l (reaction Add u3 m (js ''check'')) ctx now3 db2 tr2 = (None, db3, tr3)
    \<and> getTaskByTaskMsgId db3 m =
        Some (task\<lparr>status := Done, completed_at := Some now3, completed_by := Some n3\<rparr>)
    \<and> tr3 = tr2 @ [GetUser u3, PatchMessage m (renderTaskCard l
          (task\<lparr>status := Done, completed_at := Some now3, completed_by := Some n3\<rparr>)
          (getAssignees db (t_id task)) (config ctx))]
    \<and> n1 = lookedUpName (client ctx) (tr @ [GetUser u1])
    \<and> n3 = lookedUpName (client ctx) (tr2 @ [GetUser u3])"
proof -
  define n1 where "n1 = lookedUpName (client ctx) (tr @ [GetUser u1])"
  define task1 where "task1 = task\<lparr>status := Done, completed_at := Some now1, completed_by := Some n1\<rparr>"
  define db1 where "db1 = completeTask db (t_id task) n1 now1"
  define tr1 where "tr1 = tr @ [GetUser u1, PatchMessage m (renderTaskCard l task1
      (getAssignees db (t_id task)) (config ctx))]"
  define task2 where "task2 = task\<lparr>status := Open, completed_at := None, completed_by := None\<rparr>"
  define db2 where "db2 = reopenTask db1 (t_id task)"
  define tr2 where "tr2 = tr1 @ [GetUser u2, PatchMessage m (renderTaskCard l task2
      (getAssignees db (t_id task)) (config ctx))]"
  define n3 where "n3 = lookedUpName (client ctx) (tr2 @ [GetUser u3])"
  define task3 where "task3 = task\<lparr>status := Done, completed_at := Some now3, completed_by := Some n3\<rparr>"
  define db3 where "db3 = completeTask db2 (t_id task) n3 now3"
  define tr3 where "tr3 = tr2 @ [GetUser u3, PatchMessage m (renderTaskCard l task3
      (getAssignees db (t_id task)) (config ctx))]"
  have s1: "tasks_onReaction l (reaction Add u1 m (js ''check'')) ctx now1 db tr = (None, db1, tr1)"
    using toggle_step [OF users(1) card m lookup, of l Add now1 tr]
    by (simp add: db1_def tr1_def task1_def n1_def)
  have c1: "getTaskByTaskMsgId db1 m = Some task1"
    unfolding db1_def task1_def using card by (rule getTaskByTaskMsgId_completeTask)
  have id1: "t_id task1 = t_id task" by (simp add: task1_def)
  have a1: "getAssignees db1 i = getAssignees db i" for i
    by (simp add: db1_def getAssignees_completeTask)
  have t2: "task1\<lparr>status := Open, completed_at := None, completed_by := None\<rparr> = task2"
    by (simp add: task1_def task2_def)
  have s2: "tasks_onReaction l (reaction Remove u2 m (js ''check'')) ctx now2 db1 tr1 = (None, db2, tr2)"
    using toggle_step [OF users(2) c1 m lookup, of l Remove now2 tr1]
    by (simp add: db2_def tr2_def id1 a1 t2)
  have c2: "getTaskByTaskMsgId db2 m = Some task2"
    using getTaskByTaskMsgId_reopenTask [OF c1] by (simp add: db2_def id1 t2)
  have id2: "t_id task2 = t_id task" by (simp add: task2_def)
  have a2: "getAssignees db2 i = getAssignees db i" for i
    by (simp add: db2_def getAssignees_reopenTask a1)
  have t3: "task2\<lparr>status := Done, completed_at := Some now3, completed_by := Some n3\<rparr> = task3"
    by (simp add: task2_def task3_def)
  have s3: "tasks_onReaction l (reaction Add u3 m (js ''check'')) ctx now3 db2 tr2 = (None, db3, tr3)"
    using toggle_step [OF users(3) c2 m lookup, of l Add now3 tr2]
    by (simp add: db3_def tr3_def id2 a2 t3 [unfolded n3_def] n3_def)
  have c3: "getTaskByTaskMsgId db3 m = Some task3"
    using getTaskByTaskMsgId_completeTask [OF c2, of n3 now3] by (simp add: db3_def id2 t3)
  show ?thesis
    using s1 c1 s2 c2 s3 c3
    unfolding task1_def task2_def task3_def
    by (intro exI [of _ db1] exI [of _ tr1] exI [of _ db2] exI [of _ tr2] exI [of _ db3]
        exI [of _ tr3] exI [of _ n1] exI [of _ n3])
      (simp add: tr1_def tr2_def tr3_def task1_def task2_def task3_def n1_def n3_def)
qed

lemma lookups_ctx1: "userLookupsSucceed (client ctx1)"
  by (simp add: userLookupsSucceed_def ctx1_def gateway1_def ctx0_def)

lemma card_db99: "getTaskByTaskMsgId db99 3 = Some task99"
  by (simp add: getTaskByTaskMsgId_def db99_def task99_def empty_database_def)

text \<open>
  Claim C5, at the task of message 99, whose card is message 3, toggled by user 3 (the bot
  is user 7), whom the gateway knows as Ann.
\<close>

theorem completion_toggle_witness:
  "(3::nat) \<noteq> botUserId ctx1 \<and> getTaskByTaskMsgId db99 3 = Some task99 \<and> (0::nat) < 3
   \<and> userLookupsSucceed (client ctx1)
   \<and> (\<exists>db1 tr1 db2 tr2 db3 tr3.
      tasks_onReaction lib0 (reaction Add 3 3 (js ''check'')) ctx1 10 db99 [] = (None, db1, tr1)
    \<and> getTaskByTaskMsgId db1 3 =
        Some (task99\<lparr>status := Done, completed_at := Some 10, completed_by := Some (js ''Ann'')\<rparr>)
    \<and> tr1 = [GetUser 3, PatchMessage 3 (renderTaskCard lib0
          (task99\<lparr>status := Done, completed_at := Some 10, completed_by := Some (js ''Ann'')\<rparr>)
          [] (config ctx1))]
    \<and> tasks_onReaction lib0 (reaction Remove 3 3 (js ''check'')) ctx1 20 db1 tr1 = (None, db2, tr2)
    \<and> getTaskByTaskMsgId db2 3 =
        Some (task99\<lparr>status := Open, completed_at := None, completed_by := None\<rparr>)
    \<and> tr2 = tr1 @ [GetUser 3, PatchMessage 3 (renderTaskCard lib0
          (task99\<lparr>status := Open, completed_at := None, completed_by := None\<rparr>)
          [] (config ctx1))]
    \<and> tasks_onReaction lib0 (reaction Add 3 3 (js ''check'')) ctx1 30 db2 tr2 = (None, db3, tr3)
    \<and> getTaskByTaskMsgId db3 3 =
        Some (task99\<lparr>status := Done, completed_at := Some 30, completed_by := Some (js ''Ann'')\<rparr>)
    \<and> tr3 = tr2 @ [GetUser 3, PatchMessage 3 (renderTaskCard lib0
          (task99\<lparr>status := Done, completed_at := Some 30, completed_by := Some (js ''Ann'')\<rparr>)
          [] (config ctx1))])"
proof -
  have u: "(3::nat) \<noteq> botUserId ctx1" by (simp add: ctx1_def ctx0_def)
  have m: "(0::nat) < 3" by simp
  have n: "lookedUpName (client ctx1) h = js ''Ann''" for h
    by (simp add: lookedUpName_def ctx1_def gateway1_def)
  have a: "getAssignees db99 (t_id task99) = []"
    by (simp add: getAssignees_def db99_def empty_database_def)
  from completion_toggle [OF u u u card_db99 m lookups_ctx1, of lib0 10 "[]" 20 30]
  have "\<exists>db1 tr1 db2 tr2 db3 tr3.
      tasks_onReaction lib0 (reaction Add 3 3 (js ''check'')) ctx1 10 db99 [] = (None, db1, tr1)
    \<and> getTaskByTaskMsgId db1 3 =
        Some (task99\<lparr>status := Done, completed_at := Some 10, completed_by := Some (js ''Ann'')\<rparr>)
    \<and> tr1 = [GetUser 3, PatchMessage 3 (renderTaskCard lib0
          (task99\<lparr>status := Done, completed_at := Some 10, completed_by := Some (js ''Ann'')\<rparr>)
          [] (config ctx1))]
    \<and> tasks_onReaction lib0 (reaction Remove 3 3 (js ''check'')) ctx1 20 db1 tr1 = (None, db2, tr2)
    \<and> getTaskByTaskMsgId db2 3 =
        Some (task99\<lparr>status := Open, completed_at := None, completed_by := None\<rparr>)
    \<and> tr2 = tr1 @ [GetUser 3, PatchMessage 3 (renderTaskCard lib0
          (task99\<lparr>status := Open, completed_at := None, completed_by := None\<rparr>)
          [] (config ctx1))]
    \<and> tasks_onReaction lib0 (reaction Add 3 3 (js ''check'')) ctx1 30 db2 tr2 = (None, db3, tr3)
    \<and> getTaskByTaskMsgId db3 3 =
        Some (task99\<lparr>status := Done, completed_at := Some 30, completed_by := Some (js ''Ann'')\<rparr>)
    \<and> tr3 = tr2 @ [GetUser 3, PatchMessage 3 (renderTaskCard lib0
          (task99\<lparr>status := Done, completed_at := Some 30, completed_by := Some (js ''Ann'')\<rparr>)
          [] (config ctx1))]"
    unfolding n a by (simp only: append_Nil) blast
  with u card_db99 m lookups_ctx1 show ?thesis by blast
qed

lemma grows_refl: "grows db db"
  by (simp add: grows_def)

lemma grows_same: "srcIds db' = srcIds db \<Longrightarrow> grows db db'"
  by (simp add: grows_def)

lemma grows_then_same: "grows db db1 \<Longrightarrow> srcIds db2 = srcIds db1 \<Longrightarrow> grows db db2"
  by (simp add: grows_def)

lemma grows_distinct: "grows db db' \<Longrightarrow> distinct (srcIds db) \<Longrightarrow> distinct (srcIds db')"
  by (auto simp: grows_def)

lemma createTask_grows:
  assumes "createTask db p now = Inr (i, db1)"
  shows "grows db db1"
proof -
  from assms have no: "nt_sourceMsgId p \<notin> set (srcIds db)"
    by (auto simp: createTask_def srcIds_def split: if_splits)
  from assms have "srcIds db1 = srcIds db @ [nt_sourceMsgId p]"
    by (auto simp: createTask_def srcIds_def Let_def split: if_splits)
  with no show ?thesis unfolding grows_def by blast
qed

lemma insertAssignee_tasks: "insertAssignee db t u now = Inr db' \<Longrightarrow> tasks db' = tasks db"
  by (auto simp: insertAssignee_def Let_def split: if_splits)

lemma insertAssignees_tasks: "insertAssignees db t us now = Inr db' \<Longrightarrow> tasks db' = tasks db"
proof (induction us arbitrary: db)
  case Nil
  then show ?case by simp
next
  case (Cons u us)
  then show ?case
    by (auto split: sum.splits dest: insertAssignee_tasks)
qed

lemma addAssignees_srcIds: "addAssignees db t us now = (r, db') \<Longrightarrow> srcIds db' = srcIds db"
  by (auto simp: addAssignees_def srcIds_def split: sum.splits dest: insertAssignees_tasks)

lemma updateTaskMsgRef_srcIds: "srcIds (updateTaskMsgRef db i c t m) = srcIds db"
  by (simp add: updateTaskMsgRef_def srcIds_def)

lemma completeTask_srcIds: "srcIds (completeTask db i who now) = srcIds db"
  by (simp add: completeTask_def srcIds_def)

lemma reopenTask_srcIds: "srcIds (reopenTask db i) = srcIds db"
  by (simp add: reopenTask_def srcIds_def)

lemma postTaskCard_srcIds:
  "postTaskCard l ctx i s c t db tr = (r, db', tr') \<Longrightarrow> srcIds db' = srcIds db"
  by (auto simp: postTaskCard_def Let_def messages_send_def updateTaskMsgRef_srcIds
      split: option.splits sum.splits)

text \<open>From the insert on, \<open>handleTaskCreation\<close> and the promote branch keep the source ids.\<close>

lemma created_grows:
  assumes "createTask db p now = Inr (i, db1)" "addAssignees db1 i us now = (ra, db2)"
    "postTaskCard l ctx i s c t db2 tr = (rp, db3, tr')"
  shows "grows db db1" "grows db db2" "grows db db3"
proof -
  show g1: "grows db db1" using assms(1) by (rule createTask_grows)
  show g2: "grows db db2" using g1 addAssignees_srcIds [OF assms(2)] by (rule grows_then_same)
  show "grows db db3" using g2 postTaskCard_srcIds [OF assms(3)] by (rule grows_then_same)
qed

lemma grows_chain:
  assumes "createTask db p now = Inr (i, db1)"
  shows "grows db db1"
    and "addAssignees db1 i us now = (ra, db2) \<Longrightarrow> grows db db2"
    and "addAssignees db1 i us now = (ra, db2) \<Longrightarrow>
         postTaskCard l ctx i' s c t db2 tr = (rp, db3, tr') \<Longrightarrow> grows db db3"
    and "postTaskCard l ctx i' s c t db1 tr = (rp, db3, tr') \<Longrightarrow> grows db db3"
proof -
  show g1: "grows db db1" using assms by (rule createTask_grows)
  show g2: "grows db db2" if "addAssignees db1 i us now = (ra, db2)"
    using g1 addAssignees_srcIds [OF that] by (rule grows_then_same)
  show "grows db db3" if "addAssignees db1 i us now = (ra, db2)"
    "postTaskCard l ctx i' s c t db2 tr = (rp, db3, tr')"
    using g2 [OF that(1)] postTaskCard_srcIds [OF that(2)] by (rule grows_then_same)
  show "grows db db3" if "postTaskCard l ctx i' s c t db1 tr = (rp, db3, tr')"
    using g1 postTaskCard_srcIds [OF that] by (rule grows_then_same)
qed

lemma taskCreation_confirm_db:
  "fst (snd (taskCreation_confirm msg ctx mentions targetId tasksCh taskTopic db tr)) = db"
  by (simp add: taskCreation_confirm_def Let_def messages_send_def split: sum.splits)

lemma taskCreation_insert_grows:
  "grows db (fst (snd (taskCreation_insert l msg ctx mentions ownTopic now targetMsg tasksCh db tr)))"
proof -
  let ?p = "\<lparr>nt_content = lib_htmlToText l (msg_content targetMsg),
             nt_creatorName = sender_full_name msg, nt_creatorUserId = None,
             nt_sourceChannel = display_recipient msg, nt_sourceTopic = msg_subject msg,
             nt_sourceMsgId = msg_id targetMsg, nt_ownTopic = ownTopic\<rparr>"
  show ?thesis
  proof (cases "createTask db ?p now")
    case (Inl e)
    then show ?thesis by (simp add: taskCreation_insert_def Let_def grows_refl)
  next
    case (Inr created)
    obtain i db1 where created: "created = (i, db1)" by (cases created)
    with Inr have cr: "createTask db ?p now = Inr (i, db1)" by simp
    let ?us = "map (\<lambda>m. (snd m, Some (fst m))) mentions"
    let ?add = "if 0 < length mentions then addAssignees db1 i ?us now else (None, db1)"
    obtain ra db2 where add: "?add = (ra, db2)" by (cases ?add)
    have "srcIds db2 = srcIds db1"
      using add by (auto split: if_splits dest: addAssignees_srcIds)
    with createTask_grows [OF cr] have g2: "grows db db2" by (rule grows_then_same)
    show ?thesis
    proof (cases ra)
      case (Some e)
      with cr add g2 show ?thesis by (simp add: taskCreation_insert_def Let_def)
    next
      case None
      let ?topic = "if ownTopic then truncate_js (lib_htmlToText l (msg_content targetMsg)) 50
            else if isTasksChannel l (display_recipient msg) (config ctx) then msg_subject msg
            else display_recipient msg @ js '' / '' @ msg_subject msg"
      let ?post = "postTaskCard l ctx i (msg_id targetMsg) tasksCh ?topic db2 tr"
      obtain rp db3 tr3 where post: "?post = (rp, db3, tr3)" by (cases ?post) auto
      have g3: "grows db db3"
        using g2 postTaskCard_srcIds [OF post] by (rule grows_then_same)
      show ?thesis
      proof (cases rp)
        case (Some e)
        with cr add None post g3 show ?thesis by (simp add: taskCreation_insert_def Let_def)
      next
        case np: None
        with cr add None post g3 show ?thesis
          by (simp add: taskCreation_insert_def Let_def taskCreation_confirm_db)
      qed
    qed
  qed
qed

lemma handleTaskCreation_grows:
  "grows db (fst (snd (handleTaskCreation l msg ctx mentions ownTopic now db tr)))"
proof -
  let ?ch = "display_recipient msg" and ?tp = "msg_subject msg"
  let ?tr1 = "tr @ [MessagesRetrieve ?ch ?tp (showNat (msg_id msg)) 1 0]"
  show ?thesis
  proof (cases "retrieve_result (client ctx) ?tr1")
    case (Inl e)
    then show ?thesis by (simp add: handleTaskCreation_def Let_def grows_refl)
  next
    case (Inr messages)
    let ?pre = "filter (\<lambda>m. msg_id m \<noteq> msg_id msg) messages"
    show ?thesis
    proof (cases "length ?pre = 0 \<or> getTaskBySourceMsgId db (msg_id (last ?pre)) \<noteq> None")
      case True
      with Inr show ?thesis
        by (auto simp: handleTaskCreation_def Let_def grows_refl messages_send_def split: sum.splits)
    next
      case False
      obtain rc tr2 where res: "tasksChannelFor l ctx ?ch ?tr1 = (rc, tr2)"
        by (cases "tasksChannelFor l ctx ?ch ?tr1")
      show ?thesis
      proof (cases rc)
        case (Inl e)
        with Inr False res show ?thesis
          by (simp add: handleTaskCreation_def Let_def grows_refl)
      next
        case tc: (Inr tasksCh)
        with Inr False res show ?thesis
          by (simp add: handleTaskCreation_def Let_def taskCreation_insert_grows)
      qed
    qed
  qed
qed

lemma toggleCompletion_srcIds:
  "srcIds (fst (snd (toggleCompletion l ev ctx now task db tr))) = srcIds db"
  by (simp add: toggleCompletion_def Let_def completeTask_srcIds reopenTask_srcIds split: sum.splits)

lemma promoteByReaction_grows:
  "grows db (fst (snd (promoteByReaction l ev ctx now msg db tr)))"
proof -
  let ?tr1 = "tr @ [GetUser (re_user_id ev)]"
  show ?thesis
  proof (cases "get_user_result (client ctx) ?tr1")
    case (Inl e)
    then show ?thesis by (simp add: promoteByReaction_def Let_def grows_refl)
  next
    case (Inr user)
    let ?name = "case user of Some n \<Rightarrow> n | None \<Rightarrow> js ''Unknown''"
    obtain rc tr2 where res: "tasksChannelFor l ctx (display_recipient msg) ?tr1 = (rc, tr2)"
      by (cases "tasksChannelFor l ctx (display_recipient msg) ?tr1")
    show ?thesis
    proof (cases rc)
      case (Inl e)
      with Inr res show ?thesis by (simp add: promoteByReaction_def Let_def grows_refl)
    next
      case tc: (Inr tasksCh)
      let ?p = "\<lparr>nt_content = lib_htmlToText l (msg_content msg), nt_creatorName = ?name,
                 nt_creatorUserId = None, nt_sourceChannel = display_recipient msg,
                 nt_sourceTopic = msg_subject msg, nt_sourceMsgId = msg_id msg,
                 nt_ownTopic = False\<rparr>"
      show ?thesis
      proof (cases "createTask db ?p now")
        case (Inl e)
        with Inr res tc show ?thesis by (simp add: promoteByReaction_def Let_def grows_refl)
      next
        case crd: (Inr created)
        obtain i db1 where created: "created = (i, db1)" by (cases created)
        with crd have cr: "createTask db ?p now = Inr (i, db1)" by simp
        let ?add = "addAssignees db1 i [(?name, Some (re_user_id ev))] now"
        obtain ra db2 where add: "?add = (ra, db2)" by (cases ?add)
        have g2: "grows db db2"
          using createTask_grows [OF cr] addAssignees_srcIds [OF add] by (rule grows_then_same)
        show ?thesis
        proof (cases ra)
          case (Some e)
          with Inr res tc cr add g2 show ?thesis by (simp add: promoteByReaction_def Let_def)
        next
          case None
          let ?topic = "if isTasksChannel l (display_recipient msg) (config ctx) then msg_subject msg
                else display_recipient msg @ js '' / '' @ msg_subject msg"
          let ?post = "postTaskCard l ctx i (msg_id msg) tasksCh ?topic db2 tr2"
          obtain rp db3 tr3 where post: "?post = (rp, db3, tr3)" by (cases ?post) auto
          have g3: "grows db db3"
            using g2 postTaskCard_srcIds [OF post] by (rule grows_then_same)
          show ?thesis
          proof (cases rp)
            case (Some e)
            with Inr res tc cr add None post g3 show ?thesis
              by (simp add: promoteByReaction_def Let_def)
          next
            case np: None
            with Inr res tc cr add None post g3 show ?thesis
              by (simp add: promoteByReaction_def Let_def messages_send_def split: sum.splits)
          qed
        qed
      qed
    qed
  qed
qed

lemma tasks_onReaction_grows:
  "grows db (fst (snd (tasks_onReaction l ev ctx now db tr)))"
  by (simp add: tasks_onReaction_def Let_def grows_refl grows_same toggleCompletion_srcIds
      promoteByReaction_grows split: sum.splits option.splits)

text \<open>
  Claim C4. The source message ids of the task rows stay distinct under the task command
  and under a reaction, whatever the gateway answers: no source message ever has two
  tasks. When the message above the command has a task already, the command leaves the
  database as it is and posts, after reading the message above, the one message
  \<open>A task already exists for that message.\<close> When the message that received the
  promote emoji (an emoji other than the done emoji, added by a user other than the bot)
  has a task already, the reaction leaves the database as it is and, after reading that
  message, makes no call: it posts nothing.
\<close>

theorem one_task_per_source_message:
  assumes "distinct (srcIds db)"
  shows "distinct (srcIds (fst (snd (handleTaskCreation l msg ctx mentions ownTopic now db tr))))
       \<and> distinct (srcIds (fst (snd (tasks_onReaction l ev ctx now db tr))))
       \<and> (\<forall>messages t.
             retrieve_result (client ctx)
               (tr @ [MessagesRetrieve (display_recipient msg) (msg_subject msg)
                        (showNat (msg_id msg)) 1 0]) = Inr messages
           \<and> filter (\<lambda>m. msg_id m \<noteq> msg_id msg) messages \<noteq> []
           \<and> getTaskBySourceMsgId db
                (msg_id (last (filter (\<lambda>m. msg_id m \<noteq> msg_id msg) messages))) = Some t
           \<longrightarrow> fst (snd (handleTaskCreation l msg ctx mentions ownTopic now db tr)) = db
             \<and> snd (snd (handleTaskCreation l msg ctx mentions ownTopic now db tr)) =
                 tr @ [MessagesRetrieve (display_recipient msg) (msg_subject msg)
                         (showNat (msg_id msg)) 1 0,
                       MessagesSend (display_recipient msg) (msg_subject msg)
                         (js ''A task already exists for that message.'')])
       \<and> (\<forall>m t.
             re_user_id ev \<noteq> botUserId ctx \<and> re_op ev = Add
           \<and> re_emoji_name ev = taskEmoji (config ctx) \<and> re_emoji_name ev \<noteq> js ''check''
           \<and> get_message_result (client ctx) (tr @ [GetMessage (re_message_id ev)]) = Inr (Some m)
           \<and> getTaskBySourceMsgId db (msg_id m) = Some t
           \<longrightarrow> tasks_onReaction l ev ctx now db tr = (None, db, tr @ [GetMessage (re_message_id ev)]))"
proof (intro conjI allI impI)
  show "distinct (srcIds (fst (snd (handleTaskCreation l msg ctx mentions ownTopic now db tr))))"
    using handleTaskCreation_grows assms by (rule grows_distinct)
  show "distinct (srcIds (fst (snd (tasks_onReaction l ev ctx now db tr))))"
    using tasks_onReaction_grows assms by (rule grows_distinct)
next
  fix messages t
  assume h: "retrieve_result (client ctx)
               (tr @ [MessagesRetrieve (display_recipient msg) (msg_subject msg)
                        (showNat (msg_id msg)) 1 0]) = Inr messages
           \<and> filter (\<lambda>m. msg_id m \<noteq> msg_id msg) messages \<noteq> []
           \<and> getTaskBySourceMsgId db
                (msg_id (last (filter (\<lambda>m. msg_id m \<noteq> msg_id msg) messages))) = Some t"
  then show "fst (snd (handleTaskCreation l msg ctx mentions ownTopic now db tr)) = db"
    by (simp add: handleTaskCreation_def Let_def messages_send_def split: sum.splits)
  from h show "snd (snd (handleTaskCreation l msg ctx mentions ownTopic now db tr)) =
                 tr @ [MessagesRetrieve (display_recipient msg) (msg_subject msg)
                         (showNat (msg_id msg)) 1 0,
                       MessagesSend (display_recipient msg) (msg_subject msg)
                         (js ''A task already exists for that message.'')]"
    by (simp add: handleTaskCreation_def Let_def messages_send_def split: sum.splits)
next
  fix m t
  assume "re_user_id ev \<noteq> botUserId ctx \<and> re_op ev = Add
           \<and> re_emoji_name ev = taskEmoji (config ctx) \<and> re_emoji_name ev \<noteq> js ''check''
           \<and> get_message_result (client ctx) (tr @ [GetMessage (re_message_id ev)]) = Inr (Some m)
           \<and> getTaskBySourceMsgId db (msg_id m) = Some t"
  then have "re_user_id ev \<noteq> botUserId ctx" "re_op ev = Add"
    "re_emoji_name ev = taskEmoji (config ctx)" "re_emoji_name ev \<noteq> js ''check''"
    "get_message_result (client ctx) (tr @ [GetMessage (re_message_id ev)]) = Inr (Some m)"
    "getTaskBySourceMsgId db (msg_id m) = Some t"
    by blast+
  then show "tasks_onReaction l ev ctx now db tr = (None, db, tr @ [GetMessage (re_message_id ev)])"
    unfolding tasks_onReaction_def Let_def by simp
qed

text \<open>
  The first promotion of message 99, by the command of message 100 on an empty database:
  it leaves the database of the examples.
\<close>

lemma first_promotion:
  "handleTaskCreation lib0 msg0 ctx1 [] False 5 empty_database [] =
     (None, db99,
      [MessagesRetrieve (js ''general'') (js ''help'') (js ''100'') 1 0,
       ResolveTasksChannel (js ''general''),
       MessagesSend (js ''tasks'') (js ''general / help'')
         (renderTaskCard lib0 (task99\<lparr>task_msg_id := None\<rparr>) [] (config ctx1)),
       ReactionsAdd 99 (js ''clipboard''),
       MessagesSend (js ''general'') (js ''help'')
         (js ''Task created by Ann in #**tasks>general / help**'')])"
  by code_simp

text \<open>
  Claim C4, at the database the first promotion of message 99 leaves: a second task
  command above which message 99 stands, and the promote emoji of user 3 on message 99.
\<close>

theorem one_task_per_source_message_witness:
  "distinct (srcIds db99)
   \<and> getTaskBySourceMsgId db99 99 = Some task99
   \<and> fst (snd (handleTaskCreation lib0 msg0 ctx1 [] False 6 db99 [])) = db99
   \<and> snd (snd (handleTaskCreation lib0 msg0 ctx1 [] False 6 db99 [])) =
        [MessagesRetrieve (js ''general'') (js ''help'') (js ''100'') 1 0,
         MessagesSend (js ''general'') (js ''help'') (js ''A task already exists for that message.'')]
   \<and> tasks_onReaction lib0 (reaction Add 3 99 (js ''clipboard'')) ctx1 6 db99 [] =
        (None, db99, [GetMessage 99])"
proof -
  let ?ev = "reaction Add 3 99 (js ''clipboard'')"
  have d: "distinct (srcIds db99)"
    by (simp add: srcIds_def db99_def empty_database_def)
  have g: "getTaskBySourceMsgId db99 99 = Some task99"
    by (simp add: getTaskBySourceMsgId_def db99_def empty_database_def task99_def)
  have m0: "display_recipient msg0 = js ''general''" "msg_subject msg0 = js ''help''"
    "msg_id msg0 = 100" by (simp_all add: msg0_def)
  have sn: "showNat 100 = js ''100''" by code_simp
  have r: "retrieve_result (client ctx1) h = Inr [msg99, msg0]" for h
    by (simp add: ctx1_def gateway1_def)
  have f: "filter (\<lambda>m. msg_id m \<noteq> msg_id msg0) [msg99, msg0] = [msg99]"
    by (simp add: msg0_def msg99_def)
  have i99: "msg_id msg99 = 99" by (simp add: msg99_def)
  have gm: "get_message_result (client ctx1) h = Inr (Some msg99)" for h
    by (simp add: ctx1_def gateway1_def)
  have ev: "re_user_id ?ev \<noteq> botUserId ctx1" "re_op ?ev = Add"
    "re_emoji_name ?ev = taskEmoji (config ctx1)" "re_emoji_name ?ev \<noteq> js ''check''"
    "re_message_id ?ev = 99"
    by (simp_all add: reaction_def ctx1_def ctx0_def js_def)
  note inst = one_task_per_source_message [OF d, of lib0 msg0 ctx1 "[]" False 6 "[]" ?ev]
  from inst have "\<forall>messages t.
             retrieve_result (client ctx1)
               ([] @ [MessagesRetrieve (display_recipient msg0) (msg_subject msg0)
                        (showNat (msg_id msg0)) 1 0]) = Inr messages
           \<and> filter (\<lambda>m. msg_id m \<noteq> msg_id msg0) messages \<noteq> []
           \<and> getTaskBySourceMsgId db99
                (msg_id (last (filter (\<lambda>m. msg_id m \<noteq> msg_id msg0) messages))) = Some t
           \<longrightarrow> fst (snd (handleTaskCreation lib0 msg0 ctx1 [] False 6 db99 [])) = db99
             \<and> snd (snd (handleTaskCreation lib0 msg0 ctx1 [] False 6 db99 [])) =
                 [] @ [MessagesRetrieve (display_recipient msg0) (msg_subject msg0)
                         (showNat (msg_id msg0)) 1 0,
                       MessagesSend (display_recipient msg0) (msg_subject msg0)
                         (js ''A task already exists for that message.'')]"
    by blast
  from this [rule_format, of "[msg99, msg0]" task99]
  have a: "fst (snd (handleTaskCreation lib0 msg0 ctx1 [] False 6 db99 [])) = db99
      \<and> snd (snd (handleTaskCreation lib0 msg0 ctx1 [] False 6 db99 [])) =
        [MessagesRetrieve (js ''general'') (js ''help'') (js ''100'') 1 0,
         MessagesSend (js ''general'') (js ''help'') (js ''A task already exists for that message.'')]"
    unfolding r f by (simp add: i99 g m0 sn)
  from inst have "\<forall>m t.
             re_user_id ?ev \<noteq> botUserId ctx1 \<and> re_op ?ev = Add
           \<and> re_emoji_name ?ev = taskEmoji (config ctx1) \<and> re_emoji_name ?ev \<noteq> js ''check''
           \<and> get_message_result (client ctx1) ([] @ [GetMessage (re_message_id ?ev)]) = Inr (Some m)
           \<and> getTaskBySourceMsgId db99 (msg_id m) = Some t
           \<longrightarrow> tasks_onReaction lib0 ?ev ctx1 6 db99 [] = (None, db99, [] @ [GetMessage (re_message_id ?ev)])"
    by blast
  from this [rule_format, of msg99 task99] ev gm g
  have b: "tasks_onReaction lib0 ?ev ctx1 6 db99 [] = (None, db99, [GetMessage 99])"
    by (simp add: i99)
  from d g a b show ?thesis by blast
qed

section \<open>Properties of the dashboard scheduler\<close>

lemma insort_key_map_distinct:
  "distinct (map g (insort_key f x xs)) = (g x \<notin> g ` set xs \<and> distinct (map g xs))"
  by (induction xs) (auto simp: set_insort_key)

lemma sort_key_map_distinct: "distinct (map g (sort_key f xs)) = distinct (map g xs)"
  by (induction xs) (simp_all add: insort_key_map_distinct)

lemma getActiveDashboards_set: "set (getActiveDashboards db) = set (dashboards db)"
  by (simp add: getActiveDashboards_def)

lemma getActiveDashboards_distinct:
  "distinct (map d_id (getActiveDashboards db)) = distinct (map d_id (dashboards db))"
  by (simp add: getActiveDashboards_def sort_key_map_distinct)

lemma filter_same_key:
  assumes "distinct (map f xs)" "x \<in> set xs"
  shows "filter (\<lambda>y. f y = f x) xs = [x]"
  using assms
proof (induction xs)
  case Nil
  then show ?case by simp
next
  case (Cons a xs)
  show ?case
  proof (cases "a = x")
    case True
    with Cons.prems have "\<forall>y\<in>set xs. f y \<noteq> f x" by (auto simp: image_iff)
    then have "filter (\<lambda>y. f y = f x) xs = []" by (simp add: filter_empty_conv)
    with True show ?thesis by simp
  next
    case False
    with Cons.prems have "x \<in> set xs" "f a \<noteq> f x" by auto
    with Cons show ?thesis by simp
  qed
qed

text \<open>The rows deleted by the loop, the timers it arms and the calls it makes, in closed form.\<close>

lemma init_rows:
  assumes "distinct (map d_id rows)" "\<forall>r\<in>set rows. \<not> timers_has st (d_id r)"
  shows "foldl init_row st rows =
     st\<lparr>sch_db := deleteAll (sch_db st) (filter (\<lambda>r. \<not> known r) rows),
        timers := timers st @ armed (filter known rows),
        sch_calls := sch_calls st @ resumed (filter known rows)\<rparr>"
  using assms
proof (induction rows arbitrary: st)
  case Nil
  then show ?case by (simp add: deleteAll_def armed_def resumed_def)
next
  case (Cons r rows)
  let ?st1 = "init_row st r"
  have d: "distinct (map d_id rows)" using Cons.prems(1) by simp
  have fresh: "\<not> timers_has st (d_id r)" using Cons.prems(2) by simp
  show ?case
  proof (cases "known r")
    case False
    then have st1: "?st1 = st\<lparr>sch_db := deleteDashboard (sch_db st) (d_id r)\<rparr>"
      by (simp add: init_row_def known_def)
    have "\<forall>x\<in>set rows. \<not> timers_has ?st1 (d_id x)"
      using Cons.prems(2) by (simp add: st1 timers_has_def)
    from Cons.IH [OF d this] False show ?thesis
      by (simp add: st1 deleteAll_def)
  next
    case True
    then have st1: "?st1 = st\<lparr>timers := timers st @ [(d_id r, r)],
        sch_calls := sch_calls st @ [TickDashboard r, SetInterval r (interval_ms r)]\<rparr>"
      using fresh
      by (simp add: init_row_def known_def startTimer_def tickDashboard_start_def Let_def timers_has_def)
    have "\<forall>x\<in>set rows. \<not> timers_has ?st1 (d_id x)"
      using Cons.prems by (auto simp: st1 timers_has_def image_iff)
    from Cons.IH [OF d this] True show ?thesis
      by (simp add: st1 armed_def resumed_def)
  qed
qed

lemma dashboards_deleteAll:
  "dashboards (deleteAll db rs) = filter (\<lambda>d. d_id d \<notin> d_id ` set rs) (dashboards db)"
proof (induction rs arbitrary: db)
  case Nil
  then show ?case by (simp add: deleteAll_def)
next
  case (Cons r rs)
  have "deleteAll db (r # rs) = deleteAll (deleteDashboard db (d_id r)) rs"
    by (simp add: deleteAll_def)
  then show ?case
    using Cons [of "deleteDashboard db (d_id r)"]
    by (auto simp: deleteDashboard_def intro: filter_cong)
qed

lemma ticks_resumed: "filter (isTickOf i) (resumed rs) = map TickDashboard (filter (\<lambda>r. d_id r = i) rs)"
  by (induction rs) (simp_all add: resumed_def)

lemma arms_resumed:
  "filter (isArmOf i) (resumed rs) = map (\<lambda>r. SetInterval r (interval_ms r)) (filter (\<lambda>r. d_id r = i) rs)"
  by (induction rs) (simp_all add: resumed_def)

lemma timers_armed:
  "filter (\<lambda>t. fst t = i) (armed rs) = map (\<lambda>r. (d_id r, r)) (filter (\<lambda>r. d_id r = i) rs)"
  by (induction rs) (simp_all add: armed_def)

lemma dashboards_init_startup:
  assumes "distinct (map d_id (dashboards db))"
  shows "dashboards_init (startup db) =
     \<lparr>sch_db = deleteAll db (filter (\<lambda>r. \<not> known r) (getActiveDashboards db)),
      timers = armed (filter known (getActiveDashboards db)),
      sch_calls = resumed (filter known (getActiveDashboards db))\<rparr>"
proof -
  have "distinct (map d_id (getActiveDashboards db))"
    using assms by (simp add: getActiveDashboards_distinct)
  moreover have "\<forall>r\<in>set (getActiveDashboards db). \<not> timers_has (startup db) (d_id r)"
    by (simp add: timers_has_def startup_def)
  ultimately show ?thesis
    using init_rows [of "getActiveDashboards db" "startup db"]
    by (simp add: dashboards_init_def startup_def)
qed

lemma filter_known_id:
  assumes "distinct (map d_id rows)" "row \<in> set rows"
  shows "filter (\<lambda>r. known r \<and> d_id r = d_id row) rows = (if known row then [row] else [])"
proof -
  have "filter (\<lambda>r. known r \<and> d_id r = d_id row) rows =
      filter known (filter (\<lambda>r. d_id r = d_id row) rows)"
    by (simp add: conj_commute)
  also have "\<dots> = filter known [row]"
    by (simp only: filter_same_key [OF assms])
  finally show ?thesis by simp
qed

text \<open>
  Claim C8. On a database whose dashboard rows have distinct ids, at the start of the
  process (no timer yet): after \<open>init\<close>, a row whose name the registry does not know is
  gone from the database, has no timer, and neither a tick nor an interval was started
  for it; for a row whose name the registry knows, \<open>tickDashboard\<close> was called exactly
  once and exactly one interval was armed, the map of timers holds exactly one entry for
  it, and the row is still in the database.
\<close>

theorem startup_recovery:
  assumes "distinct (map d_id (dashboards db))" and "row \<in> set (dashboards db)"
  shows "(\<not> registry_has (d_name row) \<longrightarrow>
            \<not> (\<exists>d\<in>set (dashboards (sch_db (dashboards_init (startup db)))). d_id d = d_id row)
          \<and> \<not> timers_has (dashboards_init (startup db)) (d_id row)
          \<and> filter (isTickOf (d_id row)) (sch_calls (dashboards_init (startup db))) = []
          \<and> filter (isArmOf (d_id row)) (sch_calls (dashboards_init (startup db))) = [])
       \<and> (registry_has (d_name row) \<longrightarrow>
            filter (isTickOf (d_id row)) (sch_calls (dashboards_init (startup db))) =
              [TickDashboard row]
          \<and> filter (isArmOf (d_id row)) (sch_calls (dashboards_init (startup db))) =
              [SetInterval row (interval_ms row)]
          \<and> filter (\<lambda>t. fst t = d_id row) (timers (dashboards_init (startup db))) = [(d_id row, row)]
          \<and> row \<in> set (dashboards (sch_db (dashboards_init (startup db)))))"
proof -
  let ?rows = "getActiveDashboards db"
  have d: "distinct (map d_id ?rows)" using assms(1) by (simp add: getActiveDashboards_distinct)
  have r: "row \<in> set ?rows" using assms(2) by (simp add: getActiveDashboards_set)
  note closed = dashboards_init_startup [OF assms(1)]
  note sel = filter_known_id [OF d r]
  have ticks: "filter (isTickOf (d_id row)) (sch_calls (dashboards_init (startup db))) =
      (if known row then [TickDashboard row] else [])"
    by (simp add: closed ticks_resumed sel)
  have arms: "filter (isArmOf (d_id row)) (sch_calls (dashboards_init (startup db))) =
      (if known row then [SetInterval row (interval_ms row)] else [])"
    by (simp add: closed arms_resumed sel)
  have tm: "filter (\<lambda>t. fst t = d_id row) (timers (dashboards_init (startup db))) =
      (if known row then [(d_id row, row)] else [])"
    by (simp add: closed timers_armed sel)
  have no_timer: "\<not> timers_has (dashboards_init (startup db)) (d_id row)" if "\<not> known row"
  proof
    assume "timers_has (dashboards_init (startup db)) (d_id row)"
    then obtain t where "t \<in> set (timers (dashboards_init (startup db)))" "fst t = d_id row"
      by (auto simp: timers_has_def)
    then have "t \<in> set (filter (\<lambda>t. fst t = d_id row) (timers (dashboards_init (startup db))))"
      by simp
    with tm that show False by simp
  qed
  have gone: "\<not> (\<exists>x\<in>set (dashboards (sch_db (dashboards_init (startup db)))). d_id x = d_id row)"
    if "\<not> known row"
    using that r by (auto simp: closed dashboards_deleteAll)
  have kept: "row \<in> set (dashboards (sch_db (dashboards_init (startup db))))" if "known row"
  proof -
    have "d_id row \<notin> d_id ` set (filter (\<lambda>r. \<not> known r) ?rows)"
    proof
      assume "d_id row \<in> d_id ` set (filter (\<lambda>r. \<not> known r) ?rows)"
      then obtain x where x: "x \<in> set ?rows" "\<not> known x" "d_id x = d_id row" by auto
      then have "x \<in> set (filter (\<lambda>r. d_id r = d_id row) ?rows)" by simp
      with filter_same_key [OF d r] have "x = row" by simp
      with x(2) that show False by simp
    qed
    with assms(2) show ?thesis by (simp add: closed dashboards_deleteAll)
  qed
  show ?thesis
    using ticks arms tm no_timer gone kept unfolding known_def by simp
qed

text \<open>
  Claim C8, at a database with a feed dashboard (row 1) and a row of the name \<open>weather\<close>,
  which the registry does not know (row 2).
\<close>

theorem startup_recovery_witness:
  "distinct (map d_id (dashboards db_dash))
   \<and> row_rss \<in> set (dashboards db_dash) \<and> row_gone \<in> set (dashboards db_dash)
   \<and> registry_has (d_name row_rss) \<and> \<not> registry_has (d_name row_gone)
   \<and> filter (isTickOf 1) (sch_calls (dashboards_init (startup db_dash))) = [TickDashboard row_rss]
   \<and> filter (isArmOf 1) (sch_calls (dashboards_init (startup db_dash))) = [SetInterval row_rss 300000]
   \<and> filter (\<lambda>t. fst t = 1) (timers (dashboards_init (startup db_dash))) = [(1, row_rss)]
   \<and> row_rss \<in> set (dashboards (sch_db (dashboards_init (startup db_dash))))
   \<and> \<not> (\<exists>d\<in>set (dashboards (sch_db (dashboards_init (startup db_dash)))). d_id d = 2)
   \<and> \<not> timers_has (dashboards_init (startup db_dash)) 2
   \<and> filter (isTickOf 2) (sch_calls (dashboards_init (startup db_dash))) = []
   \<and> filter (isArmOf 2) (sch_calls (dashboards_init (startup db_dash))) = []"
proof -
  have d: "distinct (map d_id (dashboards db_dash))"
    by (simp add: db_dash_def empty_database_def row_rss_def row_gone_def)
  have r1: "row_rss \<in> set (dashboards db_dash)" and r2: "row_gone \<in> set (dashboards db_dash)"
    by (simp_all add: db_dash_def empty_database_def)
  have k1: "registry_has (d_name row_rss)"
    by (simp add: registry_has_def dashboardRegistry_def row_rss_def)
  have k2: "\<not> registry_has (d_name row_gone)"
    by (simp add: registry_has_def dashboardRegistry_def row_gone_def js_def)
  have ids: "d_id row_rss = 1" "d_id row_gone = 2" "interval_ms row_rss = 300000"
    by (simp_all add: row_rss_def row_gone_def)
  from startup_recovery [OF d r1] k1 startup_recovery [OF d r2] k2
  show ?thesis
    unfolding ids using d r1 r2 by blast
qed

text \<open>The whole state after \<open>init\<close> there.\<close>

lemma startup_recovery_example:
  "dashboards_init (startup db_dash) =
     \<lparr>sch_db = db_dash\<lparr>dashboards := [row_rss]\<rparr>, timers = [(1, row_rss)],
      sch_calls = [TickDashboard row_rss, SetInterval row_rss 300000]\<rparr>"
proof -
  have k1: "registry_has (d_name row_rss)"
    by (simp add: registry_has_def dashboardRegistry_def row_rss_def)
  have k2: "\<not> registry_has (d_name row_gone)"
    by (simp add: registry_has_def dashboardRegistry_def row_gone_def js_def)
  have ids: "d_id row_rss = 1" "d_id row_gone = 2" "interval_ms row_rss = 300000"
    "d_created_at row_rss = 5" "d_created_at row_gone = 6"
    by (simp_all add: row_rss_def row_gone_def)
  have rows: "getActiveDashboards db_dash = [row_rss, row_gone]"
    by (simp add: getActiveDashboards_def db_dash_def empty_database_def ids)
  have "dashboards_init (startup db_dash) = foldl init_row (startup db_dash) [row_rss, row_gone]"
    by (simp add: dashboards_init_def startup_def rows)
  also have "\<dots> = \<lparr>sch_db = db_dash\<lparr>dashboards := [row_rss]\<rparr>, timers = [(1, row_rss)],
      sch_calls = [TickDashboard row_rss, SetInterval row_rss 300000]\<rparr>"
    by (simp add: startup_def init_row_def k1 k2 startTimer_def
        tickDashboard_start_def timers_has_def Let_def ids deleteDashboard_def db_dash_def
        empty_database_def)
  finally show ?thesis .
qed

section \<open>Properties of the feed dashboard\<close>











lemma feed_env_feed: "feed_result (env_feed xs) = Feed (js ''Example'') xs"
  by (simp add: env_feed_def)

lemma resolveImages_item:
  "resolveImages env (map item gs) = map item gs"
proof -
  have "\<And>x. x \<in> set (take MAX_DISPLAY_ITEMS (map item gs)) \<Longrightarrow> link x = []"
  proof -
    fix x assume "x \<in> set (take MAX_DISPLAY_ITEMS (map item gs))"
    then have "x \<in> set (map item gs)" by (rule in_set_takeD)
    then show "link x = []" by (auto simp: item_def)
  qed
  then have "map (\<lambda>item. if image item = [] \<and> link item \<noteq> []
                        then item\<lparr>image := fetchOgImage env (link item)\<rparr> else item)
        (take MAX_DISPLAY_ITEMS (map item gs)) = take MAX_DISPLAY_ITEMS (map item gs)"
    by (simp add: map_idI)
  then show ?thesis by (simp add: resolveImages_def)
qed

lemma first_tick_example:
  "rss_fetch (env_feed [item ''c'', item ''b'', item ''a'']) ctx0 row_new 9 db_new [] =
     (Inr (js ''## Example''), row_rss, db_seen, [])"
proof -
  have "resolveImages (env_feed [item ''c'', item ''b'', item ''a'']) (map item [''c'', ''b'', ''a''])
      = map item [''c'', ''b'', ''a'']" by (rule resolveImages_item)
  then have r: "resolveImages (env_feed [item ''c'', item ''b'', item ''a''])
      [item ''c'', item ''b'', item ''a''] = [item ''c'', item ''b'', item ''a'']" by simp
  have ids: "d_id row_new = Suc 0" "bootstrapped row_new = 0"
    by (simp_all add: row_new_def row_rss_def)
  have one: "row_new\<lparr>bootstrapped := Suc 0\<rparr> = row_rss"
    by (simp add: row_new_def row_rss_def)
  have g: "guid (item ''a'') = js ''a''" "guid (item ''b'') = js ''b''" "guid (item ''c'') = js ''c''"
    by (simp_all add: item_def)
  have ne: "js ''c'' \<noteq> js ''b''" "js ''c'' \<noteq> js ''a''" "js ''b'' \<noteq> js ''a''"
    by (simp_all add: js_def)
  have m: "markAllSeen db_new (Suc 0) [item ''c'', item ''b'', item ''a''] 9 =
      (None, db_seen\<lparr>dashboards := [row_new]\<rparr>)"
    using ne by (simp add: g markFeedItemSeen_def db_new_def db_seen_def empty_database_def ids Let_def)
  have b: "setDashboardBootstrapped (db_seen\<lparr>dashboards := [row_new]\<rparr>) (Suc 0) = db_seen"
    by (simp add: setDashboardBootstrapped_def db_seen_def empty_database_def ids one)
  have f: "renderFeed (env_feed xs) (js ''Example'') ys n = js ''## Example''" for xs ys n
    by (simp add: env_feed_def js_def)
  show ?thesis
    by (simp add: rss_fetch_def feed_env_feed Let_def r ids m b f one del: markAllSeen.simps)
qed



text \<open>The whole result of that next tick: the one new item is posted, once.\<close>

lemma later_tick_example:
  "rss_fetch (env_feed [item ''d'', item ''c'', item ''b'']) ctx0 row_rss 10 db_seen [] =
     (Inr (js ''## Example''), row_rss,
      db_seen\<lparr>feed_items := feed_items db_seen @
                 [\<lparr>f_id = 4, dashboard_id = 1, item_guid = js ''d'', seen_at = 10\<rparr>],
               feed_items_seq := 6\<rparr>,
      [MessagesSend (js ''news'') (js ''feed'') (js ''**d**'')])"
proof -
  have "resolveImages (env_feed [item ''d'', item ''c'', item ''b'']) (map item [''d'', ''c'', ''b''])
      = map item [''d'', ''c'', ''b'']" by (rule resolveImages_item)
  then have r: "resolveImages (env_feed [item ''d'', item ''c'', item ''b''])
      [item ''d'', item ''c'', item ''b''] = [item ''d'', item ''c'', item ''b'']" by simp
  have ids: "d_id row_rss = Suc 0" "bootstrapped row_rss = Suc 0" "d_channel row_rss = js ''news''"
    "d_topic row_rss = js ''feed''"
    by (simp_all add: row_rss_def)
  have g: "guid (item x) = js x" "fi_title (item x) = js x" for x by (simp_all add: item_def)
  have ne: "js ''d'' \<noteq> js ''c''" "js ''d'' \<noteq> js ''b''" "js ''d'' \<noteq> js ''a''"
    "js ''c'' \<noteq> js ''b''" "js ''c'' \<noteq> js ''a''" "js ''b'' \<noteq> js ''a''"
    by (simp_all add: js_def)
  have c: "collectNew db_seen (Suc 0) [item ''d'', item ''c'', item ''b''] 10 [] =
      (None, [item ''d''],
       db_seen\<lparr>feed_items := feed_items db_seen @
                 [\<lparr>f_id = 4, dashboard_id = 1, item_guid = js ''d'', seen_at = 10\<rparr>],
               feed_items_seq := 6\<rparr>)"
    using ne by (simp add: g ids markFeedItemSeen_def db_seen_def empty_database_def Let_def)
  have p: "postItems (env_feed xs) ctx0 row_rss [item ''d''] [] =
      (None, [MessagesSend (js ''news'') (js ''feed'') (js ''**d**'')])" for xs
    by (simp add: postItems_def ctx0_def sendChunks_ok [OF sendsSucceed_gateway_ok] ids g env_feed_def js_def
          del: sendChunks.simps)
  have f: "renderFeed (env_feed xs) (js ''Example'') ys n = js ''## Example''" for xs ys n
    by (simp add: env_feed_def js_def)
  show ?thesis
    by (simp add: rss_fetch_def feed_env_feed Let_def r ids c p f del: collectNew.simps)
qed

end
